theory Spec2Isabelle
  imports Main "HOL-Library.Sublist" "HOL-Library.List_Lexorder" "HOL-Library.Char_ord"
    "HOL-Library.AList"
begin

section \<open>MTA-STS policies of chasquid (internal/sts/sts.go)\<close>

text \<open>
  Go strings are byte sequences: they are modelled as \<open>string\<close>, a list of 8-bit
  characters. Go's \<open>int\<close> is taken to be 64 bits wide (the amd64 and arm64 builds), and
  \<open>time.Duration\<close> is a signed 64-bit count of nanoseconds: both are modelled as
  \<open>int\<close> with the wrap-around of the multiplication written out.
\<close>

subsection \<open>Errors\<close>

datatype error =
    ErrUnknownVersion
  | ErrInvalidMaxAge
  | ErrInvalidMode
  | ErrInvalidMX
  | ErrInvalidMediaType
  | errRejectRedirect
  | errExpired
  | ErrTooLong
  | ErrSyntax
  | ErrRange
  | ErrTXTRecordMissing
  | ErrHTTPStatus int
  | ErrMediaTypeParse error
  | ErrNoMediaType
  | ErrInvalidMediaParameter
  | ErrInvalidCached string error
  | ErrUnmarshal string
  | ErrNotExist
  | ErrIO string
  | ErrIDNA string
  | ErrDNS string
  | ErrTransport string
  | ErrMarshal string error
  | ErrCanceled
  | ErrDeadlineExceeded

subsection \<open>The policy\<close>

record Policy =
  Version :: string
  Mode :: string
  MXs :: "string list"
  MaxAge :: int

definition Enforce :: string where "Enforce = ''enforce''"
definition Testing :: string where "Testing = ''testing''"
definition None_mode :: string where "None_mode = ''none''"

definition Second :: int where "Second = 1000000000"

definition emptyPolicy :: Policy where
  "emptyPolicy = \<lparr>Version = [], Mode = [], MXs = [], MaxAge = 0\<rparr>"

subsection \<open>strconv.Atoi on a 64-bit platform\<close>

definition maxUint64 :: int where "maxUint64 = 18446744073709551615"
definition maxInt64 :: int where "maxInt64 = 9223372036854775807"
definition minInt64 :: int where "minInt64 = - 9223372036854775808"

definition wrap64 :: "int \<Rightarrow> int" where
  "wrap64 x = (x + 9223372036854775808) mod 18446744073709551616 - 9223372036854775808"

definition digits :: "(char \<times> int) list" where
  "digits = [(CHR ''0'', 0), (CHR ''1'', 1), (CHR ''2'', 2), (CHR ''3'', 3), (CHR ''4'', 4),
             (CHR ''5'', 5), (CHR ''6'', 6), (CHR ''7'', 7), (CHR ''8'', 8), (CHR ''9'', 9)]"

text \<open>
  The loop of \<open>strconv.ParseUint(s, 10, 64)\<close>: a byte that is no decimal digit is a
  syntax error with value 0; as soon as the accumulator reaches the cutoff
  \<open>maxUint64 / 10 + 1\<close> or the next digit overflows, the loop returns the largest value
  with a range error, without looking at the bytes that follow.
\<close>

fun parseUintLoop :: "int \<Rightarrow> string \<Rightarrow> int \<times> error option" where
  "parseUintLoop n [] = (n, None)"
| "parseUintLoop n (c # cs) =
     (case map_of digits c of
        None \<Rightarrow> (0, Some ErrSyntax)
      | Some d \<Rightarrow>
          if n \<ge> 1844674407370955162 then (maxUint64, Some ErrRange)
          else if n * 10 + d > maxUint64 then (maxUint64, Some ErrRange)
          else parseUintLoop (n * 10 + d) cs)"

definition ParseUint :: "string \<Rightarrow> int \<times> error option" where
  "ParseUint s = (if s = [] then (0, Some ErrSyntax) else parseUintLoop 0 s)"

text \<open>
  \<open>strconv.ParseInt(s, 10, 0)\<close>, which \<open>strconv.Atoi\<close> calls (its fast path for
  inputs shorter than 19 bytes returns the same values): one optional sign, then
  \<open>ParseUint\<close>; a range error returns the nearest bound of int64 together with the error.
\<close>

definition ParseInt :: "string \<Rightarrow> int \<times> error option" where
  "ParseInt s0 =
     (case s0 of
        [] \<Rightarrow> (0, Some ErrSyntax)
      | c # cs \<Rightarrow>
          let neg = (c = CHR ''-'');
              s = (if c = CHR ''+'' \<or> c = CHR ''-'' then cs else s0)
          in case ParseUint s of
               (un, Some ErrSyntax) \<Rightarrow> (0, Some ErrSyntax)
             | (un, _) \<Rightarrow>
                 if \<not> neg \<and> un \<ge> 9223372036854775808 then (maxInt64, Some ErrRange)
                 else if neg \<and> un > 9223372036854775808 then (minInt64, Some ErrRange)
                 else (if neg then - un else un, None))"

definition Atoi :: "string \<Rightarrow> int \<times> error option" where
  "Atoi s = ParseInt s"

subsection \<open>strings.TrimSpace, strings.SplitN, bufio.Scanner\<close>

text \<open>
  \<open>strings.TrimSpace\<close> removes the leading and trailing runes for which
  \<open>unicode.IsSpace\<close> holds. A rune decoded from a byte string is such a white space
  exactly when the bytes are one of the sequences below (the six ASCII ones, and the UTF-8
  encodings of U+0085, U+00A0, U+1680, U+2000 to U+200A, U+2028, U+2029, U+202F, U+205F and
  U+3000), so the function is modelled on bytes.
\<close>

definition asciiSpace :: "string" where
  "asciiSpace = [CHR 0x09, CHR 0x0A, CHR 0x0B, CHR 0x0C, CHR 0x0D, CHR 0x20]"

definition unicodeSpace :: "string list" where
  "unicodeSpace =
     [ [CHR 0xC2, CHR 0x85], [CHR 0xC2, CHR 0xA0], [CHR 0xE1, CHR 0x9A, CHR 0x80] ]
     @ map (\<lambda>c. [CHR 0xE2, CHR 0x80, c])
         [CHR 0x80, CHR 0x81, CHR 0x82, CHR 0x83, CHR 0x84, CHR 0x85, CHR 0x86, CHR 0x87,
          CHR 0x88, CHR 0x89, CHR 0x8A, CHR 0xA8, CHR 0xA9, CHR 0xAF]
     @ [ [CHR 0xE2, CHR 0x81, CHR 0x9F], [CHR 0xE3, CHR 0x80, CHR 0x80] ]"

definition spaceSeqs :: "string list" where
  "spaceSeqs = map (\<lambda>c. [c]) asciiSpace @ unicodeSpace"

function trimLeftWith :: "string list \<Rightarrow> string \<Rightarrow> string" where
  "trimLeftWith seqs s =
     (case find (\<lambda>q. q \<noteq> [] \<and> prefix q s) seqs of
        None \<Rightarrow> s
      | Some q \<Rightarrow> trimLeftWith seqs (drop (length q) s))"
  by pat_completeness auto
termination
proof (relation "measure (\<lambda>(seqs, s). length s)")
  show "wf (measure (\<lambda>(seqs, s). length s))" by simp
next
  fix seqs :: "string list" and s q :: string
  assume "find (\<lambda>q. q \<noteq> [] \<and> prefix q s) seqs = Some q"
  then have "q \<noteq> []" and "prefix q s"
    by (auto simp: find_Some_iff)
  then have "s \<noteq> []" by auto
  with \<open>q \<noteq> []\<close> show "((seqs, drop (length q) s), (seqs, s)) \<in> measure (\<lambda>(seqs, s). length s)"
    by simp
qed

declare trimLeftWith.simps [simp del]

definition trimRightWith :: "string list \<Rightarrow> string \<Rightarrow> string" where
  "trimRightWith seqs s = rev (trimLeftWith (map rev seqs) (rev s))"

definition TrimSpace :: "string \<Rightarrow> string" where
  "TrimSpace s = trimRightWith spaceSeqs (trimLeftWith spaceSeqs s)"

text \<open>
  \<open>strings.SplitN(s, sep, 2)\<close> for a separator of one byte: one element when \<open>s\<close>
  does not hold the separator and two otherwise, the text before its first occurrence and
  the text after it.
\<close>

definition SplitN2 :: "char \<Rightarrow> string \<Rightarrow> string list" where
  "SplitN2 sep s =
     (if sep \<in> set s
      then [takeWhile (\<lambda>c. c \<noteq> sep) s, tl (dropWhile (\<lambda>c. c \<noteq> sep) s)]
      else [s])"

definition dropCR :: "string \<Rightarrow> string" where
  "dropCR data = (if data \<noteq> [] \<and> last data = CHR 0x0D then butlast data else data)"

definition MaxScanTokenSize :: int where "MaxScanTokenSize = 65536"

text \<open>
  \<open>bufio.Scanner\<close> with the default split function \<open>ScanLines\<close> over an in-memory
  reader: the tokens are the lines, without the newline and without one trailing carriage
  return; a last line with no newline is a token when it is not empty. The scanner's
  buffer grows to \<open>MaxScanTokenSize\<close> bytes at most: when that many bytes from the start
  of a line hold no newline, \<open>Scan\<close> stops and \<open>Err\<close> is \<open>ErrTooLong\<close>. The reader
  itself never fails. The result is the tokens delivered and the value of \<open>Err\<close>.
\<close>

function scanLines :: "string \<Rightarrow> string list \<times> error option" where
  "scanLines data =
     (if data = [] then ([], None)
      else
        let line = takeWhile (\<lambda>c. c \<noteq> CHR 0x0A) data in
        if int (length line) \<ge> MaxScanTokenSize then ([], Some ErrTooLong)
        else if length line = length data then ([dropCR line], None)
        else (case scanLines (drop (length line + 1) data) of
                (toks, err) \<Rightarrow> (dropCR line # toks, err)))"
  by pat_completeness auto
termination
  by (relation "measure length") auto

declare scanLines.simps [simp del]

subsection \<open>parsePolicy\<close>

text \<open>The body of the loop of \<open>parsePolicy\<close>, for one line of text.\<close>

definition parseLine :: "Policy \<Rightarrow> string \<Rightarrow> Policy" where
  "parseLine p text =
     (let sp = SplitN2 (CHR '':'') text in
      if length sp \<noteq> 2 then p
      else
        let key = TrimSpace (sp ! 0); value = TrimSpace (sp ! 1) in
        if key = ''version'' then p\<lparr>Version := value\<rparr>
        else if key = ''mode'' then p\<lparr>Mode := value\<rparr>
        else if key = ''max_age'' then p\<lparr>MaxAge := wrap64 (fst (Atoi value) * Second)\<rparr>
        else if key = ''mx'' then p\<lparr>MXs := MXs p @ [value]\<rparr>
        else p)"

definition parsePolicy :: "string \<Rightarrow> error + Policy" where
  "parsePolicy raw =
     (case scanLines raw of
        (toks, err) \<Rightarrow>
          let p = foldl parseLine emptyPolicy toks in
          (case err of Some e \<Rightarrow> Inl e | None \<Rightarrow> Inr p))"

subsection \<open>Policy.Check\<close>

definition Check :: "Policy \<Rightarrow> error option" where
  "Check p =
     (if Version p \<noteq> ''STSv1'' then Some ErrUnknownVersion
      else if MaxAge p \<le> 0 \<or> MaxAge p > 31557600 * Second then Some ErrInvalidMaxAge
      else if Mode p \<noteq> Enforce \<and> Mode p \<noteq> Testing \<and> Mode p \<noteq> None_mode then Some ErrInvalidMode
      else if length (MXs p) = 0 then Some ErrInvalidMX
      else None)"

subsection \<open>Libraries outside the repository\<close>

text \<open>
  \<open>idna.ToASCII\<close> (golang.org/x/net/idna), \<open>strings.ToLower\<close> on non-ASCII text and
  \<open>mime.ParseMediaType\<close> are not part of the repository: they are parameters of the
  model. \<open>mime.ParseMediaType\<close> returns the media type (lower-cased, without its
  parameters) and an error.
\<close>

record libs =
  idna_ToASCII :: "string \<Rightarrow> error + string"
  strings_ToLower :: "string \<Rightarrow> string"
  mime_ParseMediaType :: "string \<Rightarrow> string \<times> error option"

subsection \<open>MX matching\<close>

definition TrimSuffix :: "string \<Rightarrow> string \<Rightarrow> string" where
  "TrimSuffix s suf = (if suffix suf s then take (length s - length suf) s else s)"

definition domainToASCII :: "'a libs_scheme \<Rightarrow> string \<Rightarrow> error + string" where
  "domainToASCII L domain =
     (let domain = TrimSuffix domain ''.'';
          domain = strings_ToLower L domain
      in idna_ToASCII L domain)"

definition matchDomain :: "'a libs_scheme \<Rightarrow> string \<Rightarrow> string \<Rightarrow> bool" where
  "matchDomain L domain pattern =
     (case (domainToASCII L domain, domainToASCII L pattern) of
        (Inr domain', Inr pattern') \<Rightarrow>
          if domain' = pattern' then True
          else if prefix ''*.'' pattern' then
            (let parts = SplitN2 (CHR ''.'') domain' in
             if length parts > 1 \<and> parts ! 1 = drop 2 pattern' then True else False)
          else False
      | _ \<Rightarrow> False)"

fun matchAny :: "'a libs_scheme \<Rightarrow> string \<Rightarrow> string list \<Rightarrow> bool" where
  "matchAny L mx [] = False"
| "matchAny L mx (pattern # rest) = (if matchDomain L mx pattern then True else matchAny L mx rest)"

definition MXIsAllowed :: "'a libs_scheme \<Rightarrow> Policy \<Rightarrow> string \<Rightarrow> bool" where
  "MXIsAllowed L p mx = (if Mode p \<noteq> Enforce then True else matchAny L mx (MXs p))"

subsection \<open>encoding/json, for the Policy structure\<close>

text \<open>
  \<open>utf8.DecodeRune\<close>, as far as the encoder needs it: the number of bytes of the UTF-8
  encoding at the head of a string, and 0 when the head is no valid encoding (an ASCII byte
  is one of length 1).
\<close>

definition byte :: "char \<Rightarrow> int" where
  "byte c = of_char c"

definition between :: "int \<Rightarrow> int \<Rightarrow> char \<Rightarrow> bool" where
  "between lo hi c = (lo \<le> byte c \<and> byte c \<le> hi)"

definition runeLen :: "string \<Rightarrow> nat" where
  "runeLen s =
     (case s of
        [] \<Rightarrow> 0
      | c # cs \<Rightarrow>
          if byte c < 0x80 then 1
          else if between 0xC2 0xDF c then
            (case cs of c1 # _ \<Rightarrow> if between 0x80 0xBF c1 then 2 else 0 | _ \<Rightarrow> 0)
          else if between 0xE0 0xEF c then
            (case cs of
               c1 # c2 # _ \<Rightarrow>
                 if between (if byte c = 0xE0 then 0xA0 else 0x80)
                            (if byte c = 0xED then 0x9F else 0xBF) c1
                    \<and> between 0x80 0xBF c2
                 then 3 else 0
             | _ \<Rightarrow> 0)
          else if between 0xF0 0xF4 c then
            (case cs of
               c1 # c2 # c3 # _ \<Rightarrow>
                 if between (if byte c = 0xF0 then 0x90 else 0x80)
                            (if byte c = 0xF4 then 0x8F else 0xBF) c1
                    \<and> between 0x80 0xBF c2 \<and> between 0x80 0xBF c3
                 then 4 else 0
             | _ \<Rightarrow> 0)
          else 0)"

definition hexDigits :: string where
  "hexDigits = ''0123456789abcdef''"

text \<open>
  The encoder of a string (\<open>appendString\<close> with HTML escaping, which \<open>json.Marshal\<close>
  turns on): an ASCII byte is copied, except the quote and the backslash, which get a
  backslash, the control characters, which get their short escape or \<open>\u00XX\<close>, and
  \<open><\<close>, \<open>>\<close> and \<open>&\<close>, which become \<open>\u00XX\<close> too. A byte that starts no valid
  UTF-8 encoding becomes the escape of U+FFFD, the replacement character; U+2028 and U+2029 are
  escaped; every other encoded character is copied.
\<close>

definition escapeByte :: "char \<Rightarrow> string" where
  "escapeByte c =
     (if c = CHR 0x22 then [CHR 0x5C, CHR 0x22]
      else if c = CHR 0x5C then [CHR 0x5C, CHR 0x5C]
      else if c = CHR 0x08 then [CHR 0x5C, CHR ''b'']
      else if c = CHR 0x0C then [CHR 0x5C, CHR ''f'']
      else if c = CHR 0x0A then [CHR 0x5C, CHR ''n'']
      else if c = CHR 0x0D then [CHR 0x5C, CHR ''r'']
      else if c = CHR 0x09 then [CHR 0x5C, CHR ''t'']
      else if byte c < 0x20 \<or> c = CHR ''<'' \<or> c = CHR ''>'' \<or> c = CHR ''&''
      then [CHR 0x5C, CHR ''u'', CHR ''0'', CHR ''0'',
            hexDigits ! nat (byte c div 16), hexDigits ! nat (byte c mod 16)]
      else [c])"

function appendString :: "string \<Rightarrow> string" where
  "appendString s =
     (case s of
        [] \<Rightarrow> []
      | c # cs \<Rightarrow>
          if byte c < 0x80 then escapeByte c @ appendString cs
          else if runeLen s = 0 then [CHR 0x5C] @ ''ufffd'' @ appendString cs
          else if take (runeLen s) s = [CHR 0xE2, CHR 0x80, CHR 0xA8]
          then [CHR 0x5C] @ ''u2028'' @ appendString (drop (runeLen s) s)
          else if take (runeLen s) s = [CHR 0xE2, CHR 0x80, CHR 0xA9]
          then [CHR 0x5C] @ ''u2029'' @ appendString (drop (runeLen s) s)
          else take (runeLen s) s @ appendString (drop (runeLen s) s))"
  by pat_completeness auto
termination
  by (relation "measure length") auto

declare appendString.simps [simp del]

definition quote :: "string \<Rightarrow> string" where
  "quote s = [CHR 0x22] @ appendString s @ [CHR 0x22]"

function showNat :: "int \<Rightarrow> string" where
  "showNat n = (if n < 10 then [hexDigits ! nat n] else showNat (n div 10) @ [hexDigits ! nat (n mod 10)])"
  by pat_completeness auto
termination
  by (relation "measure nat") auto

declare showNat.simps [simp del]

definition Itoa :: "int \<Rightarrow> string" where
  "Itoa n = (if n < 0 then ''-'' @ showNat (- n) else showNat n)"

fun joinComma :: "string list \<Rightarrow> string" where
  "joinComma [] = []"
| "joinComma [x] = x"
| "joinComma (x # y # ys) = x @ '','' @ joinComma (y # ys)"

text \<open>
  \<open>json.Marshal\<close> of a policy, by the annotations of the structure. It has no error for
  this type. A nil slice is written \<open>null\<close>; the empty list of the model is the nil slice
  that \<open>parsePolicy\<close> leaves when there is no \<open>mx\<close> line.
\<close>

definition json_Marshal :: "Policy \<Rightarrow> error + string" where
  "json_Marshal p =
     Inr (''{'' @ quote ''version'' @ '':'' @ quote (Version p)
          @ '','' @ quote ''mode'' @ '':'' @ quote (Mode p)
          @ '','' @ quote ''mx'' @ '':''
          @ (if MXs p = [] then ''null'' else ''['' @ joinComma (map quote (MXs p)) @ '']'')
          @ '','' @ quote ''max_age'' @ '':'' @ Itoa (MaxAge p) @ ''}'')"

text \<open>
  The decoder. A string literal, read from after its opening quote: the decoded bytes and
  the text after the closing quote. The model reads the literals whose meaning is plain:
  printable ASCII, well-formed UTF-8, the short escapes, and \<open>\uXXXX\<close> outside the
  surrogates. For every other text it has no result.
\<close>

definition hexVal :: "char \<Rightarrow> int option" where
  "hexVal c = map_of (zip (hexDigits @ ''ABCDEF'') ([0, 1, 2, 3, 4, 5, 6, 7, 8, 9, 10, 11, 12, 13, 14, 15]
                                                   @ [10, 11, 12, 13, 14, 15])) c"

definition hex4 :: "string \<Rightarrow> int option" where
  "hex4 s =
     (case map hexVal s of
        [Some a, Some b, Some c, Some d] \<Rightarrow> Some (((a * 16 + b) * 16 + c) * 16 + d)
      | _ \<Rightarrow> None)"

definition encodeRune :: "int \<Rightarrow> string" where
  "encodeRune r =
     (if r < 0x80 then [char_of r]
      else if r < 0x800 then [char_of (0xC0 + r div 64), char_of (0x80 + r mod 64)]
      else [char_of (0xE0 + r div 4096), char_of (0x80 + (r div 64) mod 64),
            char_of (0x80 + r mod 64)])"

definition shortEscapes :: "(char \<times> char) list" where
  "shortEscapes =
     [(CHR 0x22, CHR 0x22), (CHR 0x5C, CHR 0x5C), (CHR ''/'', CHR ''/''), (CHR ''b'', CHR 0x08),
      (CHR ''f'', CHR 0x0C), (CHR ''n'', CHR 0x0A), (CHR ''r'', CHR 0x0D), (CHR ''t'', CHR 0x09)]"

definition consTo :: "string \<Rightarrow> (string \<times> string) option \<Rightarrow> (string \<times> string) option" where
  "consTo pre r = map_option (\<lambda>(s, rest). (pre @ s, rest)) r"

function unquote :: "string \<Rightarrow> (string \<times> string) option" where
  "unquote s =
     (case s of
        [] \<Rightarrow> None
      | c # cs \<Rightarrow>
          if c = CHR 0x22 then Some ([], cs)
          else if c = CHR 0x5C then
            (case cs of
               [] \<Rightarrow> None
             | e # es \<Rightarrow>
                 if e = CHR ''u'' then
                   (case hex4 (take 4 es) of
                      None \<Rightarrow> None
                    | Some r \<Rightarrow>
                        if 0xD800 \<le> r \<and> r \<le> 0xDFFF then None
                        else consTo (encodeRune r) (unquote (drop 4 es)))
                 else
                   (case map_of shortEscapes e of
                      None \<Rightarrow> None
                    | Some b \<Rightarrow> consTo [b] (unquote es)))
          else if byte c < 0x20 then None
          else if byte c < 0x80 then consTo [c] (unquote cs)
          else if runeLen s = 0 then None
          else consTo (take (runeLen s) s) (unquote (drop (runeLen s) s)))"
  by pat_completeness auto
termination
  by (relation "measure length") auto

declare unquote.simps [simp del]

text \<open>
  Reading a fixed text, a quoted string, a list of strings, a number. In \<open>readStrings\<close>
  the test on the lengths always holds, as a literal has at least its quotes; it is there
  for the recursion to be seen to end.
\<close>

definition expect :: "string \<Rightarrow> string \<Rightarrow> string option" where
  "expect lit s = (if prefix lit s then Some (drop (length lit) s) else None)"

definition readString :: "string \<Rightarrow> (string \<times> string) option" where
  "readString s = (case s of c # cs \<Rightarrow> if c = CHR 0x22 then unquote cs else None | [] \<Rightarrow> None)"

function readStrings :: "string \<Rightarrow> (string list \<times> string) option" where
  "readStrings s =
     (case readString s of
        None \<Rightarrow> None
      | Some (x, rest) \<Rightarrow>
          (case rest of
             c # cs \<Rightarrow>
               if c = CHR '','' then
                 (if length cs < length s
                  then map_option (\<lambda>(xs, rest'). (x # xs, rest')) (readStrings cs)
                  else None)
               else if c = CHR '']'' then Some ([x], cs)
               else None
           | [] \<Rightarrow> None))"
  by pat_completeness auto
termination
  by (relation "measure length") auto

declare readStrings.simps [simp del]

definition readMXs :: "string \<Rightarrow> (string list \<times> string) option" where
  "readMXs s =
     (case expect ''null'' s of
        Some rest \<Rightarrow> Some ([], rest)
      | None \<Rightarrow>
          (case expect ''[]'' s of
             Some rest \<Rightarrow> Some ([], rest)
           | None \<Rightarrow>
               (case expect ''['' s of
                  Some rest \<Rightarrow> readStrings rest
                | None \<Rightarrow> None)))"

text \<open>
  A number of the JSON grammar with no fraction and no exponent, which the decoder hands to
  \<open>strconv.ParseInt\<close> for a field of a 64-bit integer type.
\<close>

definition readInt :: "string \<Rightarrow> (int \<times> string) option" where
  "readInt s =
     (let lit = takeWhile (\<lambda>c. c = CHR ''-'' \<or> map_of digits c \<noteq> None) s;
          rest = drop (length lit) s;
          ds = (case lit of c # cs \<Rightarrow> if c = CHR ''-'' then cs else lit | [] \<Rightarrow> [])
      in if ds = [] \<or> (length ds > 1 \<and> hd ds = CHR ''0'') then None
         else (case ParseInt lit of
                 (n, None) \<Rightarrow> Some (n, rest)
               | _ \<Rightarrow> None))"

definition decodePolicy :: "string \<Rightarrow> Policy option" where
  "decodePolicy s =
     (case expect (''{'' @ quote ''version'' @ '':'') s of None \<Rightarrow> None | Some s \<Rightarrow>
      case readString s of None \<Rightarrow> None | Some (version, s) \<Rightarrow>
      case expect ('','' @ quote ''mode'' @ '':'') s of None \<Rightarrow> None | Some s \<Rightarrow>
      case readString s of None \<Rightarrow> None | Some (mode, s) \<Rightarrow>
      case expect ('','' @ quote ''mx'' @ '':'') s of None \<Rightarrow> None | Some s \<Rightarrow>
      case readMXs s of None \<Rightarrow> None | Some (mxs, s) \<Rightarrow>
      case expect ('','' @ quote ''max_age'' @ '':'') s of None \<Rightarrow> None | Some s \<Rightarrow>
      case readInt s of None \<Rightarrow> None | Some (maxAge, s) \<Rightarrow>
      if s = ''}'' then Some \<lparr>Version = version, Mode = mode, MXs = mxs, MaxAge = maxAge\<rparr>
      else None)"

text \<open>
  \<open>json.Unmarshal\<close> into an empty policy. The model decodes the documents of the shape
  that \<open>json.Marshal\<close> writes: the four members in the order of the structure, with no
  white space. What the library makes of any other bytes (a syntax error for most, a policy
  for a document laid out otherwise) is the parameter \<open>json_other\<close>.
\<close>

definition json_Unmarshal :: "(string \<Rightarrow> error + Policy) \<Rightarrow> string \<Rightarrow> error + Policy" where
  "json_Unmarshal other bytes =
     (case decodePolicy bytes of
        Some p \<Rightarrow> Inr p
      | None \<Rightarrow> other bytes)"

subsection \<open>The world: clock, file system, counters, network\<close>

text \<open>
  Time is a count of nanoseconds. A file is its bytes and its modification time; the file
  system is an association list from paths to files. The counters are the exported
  \<open>expvarom\<close> integers, by name. The log records, with the time at which it happens,
  every TXT lookup, every HTTP request that reaches the network and every read of a file
  body; it also records each entry into the fetch pipeline with the context it was given.
  The source keeps no such log (its \<open>trace\<close> calls are left out): the log is how the
  model observes what a function did.
\<close>

record osfile =
  data :: string
  mtime :: int

record Context =
  cancelAt :: "int option"
  deadline :: "int option"

datatype event =
    EvLookupTXT string
  | EvHTTPGet string
  | EvReadFile string
  | EvFetch string Context

record world =
  now :: int
  files :: "(string \<times> osfile) list"
  counters :: "string \<Rightarrow> int"
  log :: "(int \<times> event) list"

definition Add :: "string \<Rightarrow> world \<Rightarrow> world" where
  "Add name w = w\<lparr>counters := (counters w)(name := counters w name + 1)\<rparr>"

definition record_event :: "event \<Rightarrow> world \<Rightarrow> world" where
  "record_event e w = w\<lparr>log := log w @ [(now w, e)]\<rparr>"

definition advance :: "nat \<Rightarrow> world \<Rightarrow> world" where
  "advance d w = w\<lparr>now := now w + int d\<rparr>"

text \<open>
  A context is done from the instant it is canceled or its deadline passes. The root
  context of the refresher is canceled by its owner at some instant, \<open>cancelAt\<close>, which
  the model takes as given. \<open>context.WithTimeout\<close>, called at the instant \<open>t\<close>, keeps the
  earlier deadline.
\<close>

definition doneAt :: "Context \<Rightarrow> int option" where
  "doneAt ctx =
     (case (cancelAt ctx, deadline ctx) of
        (None, None) \<Rightarrow> None
      | (Some c, None) \<Rightarrow> Some c
      | (None, Some d) \<Rightarrow> Some d
      | (Some c, Some d) \<Rightarrow> Some (min c d))"

definition doneErr :: "Context \<Rightarrow> error" where
  "doneErr ctx =
     (case (cancelAt ctx, deadline ctx) of
        (Some c, Some d) \<Rightarrow> if c \<le> d then ErrCanceled else ErrDeadlineExceeded
      | (Some c, None) \<Rightarrow> ErrCanceled
      | _ \<Rightarrow> ErrDeadlineExceeded)"

definition ctx_Err :: "Context \<Rightarrow> world \<Rightarrow> error option" where
  "ctx_Err ctx w =
     (case doneAt ctx of
        None \<Rightarrow> None
      | Some t \<Rightarrow> if now w < t then None else Some (doneErr ctx))"

definition WithTimeout :: "Context \<Rightarrow> int \<Rightarrow> int \<Rightarrow> Context" where
  "WithTimeout ctx timeout t =
     ctx\<lparr>deadline :=
            (case deadline ctx of
               None \<Rightarrow> Some (t + timeout)
             | Some d \<Rightarrow> Some (min d (t + timeout)))\<rparr>"

text \<open>
  What lies outside the program and answers it: the libraries, the DNS (the function the
  variable \<open>lookupTXT\<close> holds), the web servers, and the failures of the file system.
  An answer of the network comes with the time it takes. A web server answers a GET with
  a transport failure, with a redirect that the HTTP client would follow (a 3xx status with
  a Location header), or with a final response: its status, its Content-Type header, the
  bytes of its body, and the error that ends the body when it does not end well.
\<close>

datatype fsop = OpStat | OpReadFile | OpWriteFile | OpChtimes | OpReadDir

datatype reply =
    TransportFailure string
  | Redirect int string
  | Response int string string "error option"

record env = libs +
  lookupTXT :: "string \<Rightarrow> int \<Rightarrow> nat \<times> (error + string list)"
  webServer :: "string \<Rightarrow> int \<Rightarrow> nat \<times> reply"
  fsFault :: "fsop \<Rightarrow> string \<Rightarrow> int \<Rightarrow> error option"
  fakeURLForTesting :: string
  json_other :: "string \<Rightarrow> error + Policy"

subsection \<open>The fetch pipeline\<close>

fun anyHasPrefix :: "string \<Rightarrow> string list \<Rightarrow> bool" where
  "anyHasPrefix pre [] = False"
| "anyHasPrefix pre (txt # txts) = (if prefix pre txt then True else anyHasPrefix pre txts)"

definition hasSTSRecord :: "env \<Rightarrow> string \<Rightarrow> world \<Rightarrow> (error + bool) \<times> world" where
  "hasSTSRecord E domain w =
     (let name = ''_mta-sts.'' @ domain;
          (took, answer) = lookupTXT E name (now w);
          w = advance took (record_event (EvLookupTXT name) w)
      in case answer of
           Inl err \<Rightarrow> (Inl err, w)
         | Inr txts \<Rightarrow> (Inr (anyHasPrefix ''v=STSv1;'' txts), w))"

definition urlForDomain :: "env \<Rightarrow> string \<Rightarrow> string" where
  "urlForDomain E domain =
     (if fakeURLForTesting E \<noteq> [] then fakeURLForTesting E @ ''/'' @ domain
      else ''https://mta-sts.'' @ domain @ ''/.well-known/mta-sts.txt'')"

text \<open>\<open>rejectRedirect\<close> returns the same error for every request.\<close>

definition rejectRedirect :: error where
  "rejectRedirect = errRejectRedirect"

text \<open>
  The \<open>http.Client\<close> of \<open>httpGet\<close>, whose \<open>CheckRedirect\<close> is
  \<open>rejectRedirect\<close>: a redirect is put to \<open>CheckRedirect\<close>, and the client returns
  its error (inside a \<open>url.Error\<close>, which the model does not keep).
\<close>

type_synonym response = "int \<times> string \<times> string \<times> error option"

definition client_answer :: "reply \<Rightarrow> error + response" where
  "client_answer answer =
     (case answer of
        TransportFailure msg \<Rightarrow> Inl (ErrTransport msg)
      | Redirect status location \<Rightarrow> Inl rejectRedirect
      | Response status ctype body bodyErr \<Rightarrow> Inr (status, ctype, body, bodyErr))"

text \<open>
  \<open>ctxhttp.Get\<close>. A request under a context that is already done fails with the
  context's error before anything is sent. Otherwise the request is sent; when the context
  is done before the answer is there, the call returns at that instant with the context's
  error.
\<close>

definition ctxhttp_Get ::
  "env \<Rightarrow> Context \<Rightarrow> string \<Rightarrow> world \<Rightarrow> (error + response) \<times> world" where
  "ctxhttp_Get E ctx url w =
     (case ctx_Err ctx w of
        Some err \<Rightarrow> (Inl err, w)
      | None \<Rightarrow>
          let (took, answer) = webServer E url (now w);
              w = record_event (EvHTTPGet url) w
          in case doneAt ctx of
               None \<Rightarrow> (client_answer answer, advance took w)
             | Some t \<Rightarrow>
                 if now w + int took < t then (client_answer answer, advance took w)
                 else (Inl (doneErr ctx), w\<lparr>now := t\<rparr>))"

text \<open>
  \<open>io.ReadAll\<close> of an \<open>io.LimitedReader\<close> with limit \<open>n\<close> over a body: the
  first \<open>n\<close> bytes when the body has that many, and otherwise the whole body, or the
  error that ends it.
\<close>

definition ReadAll_LimitedReader :: "string \<Rightarrow> error option \<Rightarrow> nat \<Rightarrow> error + string" where
  "ReadAll_LimitedReader body bodyErr n =
     (if length body \<ge> n then Inr (take n body)
      else case bodyErr of None \<Rightarrow> Inr body | Some err \<Rightarrow> Inl err)"

definition httpGet :: "env \<Rightarrow> Context \<Rightarrow> string \<Rightarrow> world \<Rightarrow> (error + string) \<times> world" where
  "httpGet E ctx url w =
     (case ctxhttp_Get E ctx url w of
        (Inl err, w) \<Rightarrow> (Inl err, w)
      | (Inr (StatusCode, ContentType, Body, BodyErr), w) \<Rightarrow>
          if StatusCode \<noteq> 200 then (Inl (ErrHTTPStatus StatusCode), w)
          else
            (case mime_ParseMediaType E ContentType of
               (mt, Some err) \<Rightarrow> (Inl (ErrMediaTypeParse err), w)
             | (mt, None) \<Rightarrow>
                 if mt \<noteq> ''text/plain'' then (Inl ErrInvalidMediaType, w)
                 else (ReadAll_LimitedReader Body BodyErr (10 * 1024), w)))"

definition UncheckedFetch ::
  "env \<Rightarrow> Context \<Rightarrow> string \<Rightarrow> world \<Rightarrow> (error + Policy) \<times> world" where
  "UncheckedFetch E ctx domain w =
     (case idna_ToASCII E domain of
        Inl err \<Rightarrow> (Inl err, w)
      | Inr domain \<Rightarrow>
          (case hasSTSRecord E domain w of
             (Inl err, w) \<Rightarrow> (Inl err, w)
           | (Inr ok, w) \<Rightarrow>
               if \<not> ok then (Inl ErrTXTRecordMissing, w)
               else
                 let url = urlForDomain E domain in
                 (case httpGet E ctx url w of
                    (Inl err, w) \<Rightarrow> (Inl err, w)
                  | (Inr rawPolicy, w) \<Rightarrow> (parsePolicy rawPolicy, w))))"

text \<open>\<open>Fetch\<close> of the package: the pipeline, with the check of the policy.\<close>

definition Fetch :: "env \<Rightarrow> Context \<Rightarrow> string \<Rightarrow> world \<Rightarrow> (error + Policy) \<times> world" where
  "Fetch E ctx domain w =
     (case UncheckedFetch E ctx domain (record_event (EvFetch domain ctx) w) of
        (Inl err, w) \<Rightarrow> (Inl err, w)
      | (Inr p, w) \<Rightarrow>
          (case Check p of
             Some err \<Rightarrow> (Inl err, w)
           | None \<Rightarrow> (Inr p, w)))"

subsection \<open>The policy cache\<close>

record PolicyCache =
  dir :: string

definition pathPrefix :: string where
  "pathPrefix = ''pol:''"

text \<open>A panic is the value \<open>None\<close>; every caller passes it on.\<close>

definition domainPath :: "PolicyCache \<Rightarrow> string \<Rightarrow> string option" where
  "domainPath c domain =
     (if CHR ''/'' \<in> set domain then None
      else Some (dir c @ ''/'' @ pathPrefix @ domain))"

definition os_Stat :: "env \<Rightarrow> string \<Rightarrow> world \<Rightarrow> error + osfile" where
  "os_Stat E fname w =
     (case fsFault E OpStat fname (now w) of
        Some err \<Rightarrow> Inl err
      | None \<Rightarrow>
          (case map_of (files w) fname of
             None \<Rightarrow> Inl ErrNotExist
           | Some f \<Rightarrow> Inr f))"

definition os_ReadFile :: "env \<Rightarrow> string \<Rightarrow> world \<Rightarrow> (error + string) \<times> world" where
  "os_ReadFile E fname w =
     (let w = record_event (EvReadFile fname) w in
      case fsFault E OpReadFile fname (now w) of
        Some err \<Rightarrow> (Inl err, w)
      | None \<Rightarrow>
          (case map_of (files w) fname of
             None \<Rightarrow> (Inl ErrNotExist, w)
           | Some f \<Rightarrow> (Inr (data f), w)))"

text \<open>
  \<open>os.ReadDir\<close>: the names of the files of a directory, sorted. The file system of the
  model is flat: the entries of a directory are the paths under it with no further slash.
\<close>

definition os_ReadDir :: "env \<Rightarrow> string \<Rightarrow> world \<Rightarrow> error + string list" where
  "os_ReadDir E d w =
     (case fsFault E OpReadDir d (now w) of
        Some err \<Rightarrow> Inl err
      | None \<Rightarrow>
          Inr (sort (remdups
            (filter (\<lambda>name. name \<noteq> [] \<and> CHR ''/'' \<notin> set name)
               (map (\<lambda>path. drop (length d + 1) path)
                  (filter (\<lambda>path. prefix (d @ ''/'') path) (map fst (files w))))))))"

definition os_Chtimes :: "env \<Rightarrow> string \<Rightarrow> int \<Rightarrow> world \<Rightarrow> error option \<times> world" where
  "os_Chtimes E fname t w =
     (case fsFault E OpChtimes fname (now w) of
        Some err \<Rightarrow> (Some err, w)
      | None \<Rightarrow>
          (case map_of (files w) fname of
             None \<Rightarrow> (Some ErrNotExist, w)
           | Some f \<Rightarrow> (None, w\<lparr>files := AList.update fname (f\<lparr>mtime := t\<rparr>) (files w)\<rparr>)))"

text \<open>
  Modelled from the spec: \<open>safeio.WriteFile\<close>, which is not among the sources. The
  spec has it write the file atomically (a temporary file, then a rename), and after the
  write apply the given operation to the file, here the change of its times; any failure is
  returned. So a failure of the write leaves the file of that name as it was; after the
  write the file has the new bytes, and the operation, which may fail in its turn, is
  applied to it.
\<close>

definition safeio_WriteFile ::
  "env \<Rightarrow> string \<Rightarrow> string \<Rightarrow> (string \<Rightarrow> world \<Rightarrow> error option \<times> world) \<Rightarrow> world
     \<Rightarrow> error option \<times> world" where
  "safeio_WriteFile E fname bytes ops w =
     (case fsFault E OpWriteFile fname (now w) of
        Some err \<Rightarrow> (Some err, w)
      | None \<Rightarrow>
          ops fname (w\<lparr>files := AList.update fname \<lparr>data = bytes, mtime = now w\<rparr> (files w)\<rparr>))"

definition load :: "env \<Rightarrow> PolicyCache \<Rightarrow> string \<Rightarrow> world \<Rightarrow> ((error + Policy) \<times> world) option" where
  "load E c domain w =
     (case domainPath c domain of
        None \<Rightarrow> None
      | Some fname \<Rightarrow>
          (case os_Stat E fname w of
             Inl err \<Rightarrow> Some (Inl err, w)
           | Inr fi \<Rightarrow>
               if now w - mtime fi > 0 then Some (Inl errExpired, Add ''cacheExpired'' w)
               else
                 (case os_ReadFile E fname w of
                    (Inl err, w) \<Rightarrow> Some (Inl err, Add ''cacheIOErrors'' w)
                  | (Inr bytes, w) \<Rightarrow>
                      (case json_Unmarshal (json_other E) bytes of
                         Inl err \<Rightarrow> Some (Inl err, Add ''cacheUnmarshalErrors'' w)
                       | Inr p \<Rightarrow>
                           (case Check p of
                              Some err \<Rightarrow>
                                Some (Inl (ErrInvalidCached domain err), Add ''cacheInvalid'' w)
                            | None \<Rightarrow> Some (Inr p, w))))))"

definition store ::
  "env \<Rightarrow> PolicyCache \<Rightarrow> string \<Rightarrow> Policy \<Rightarrow> world \<Rightarrow> (error option \<times> world) option" where
  "store E c domain p w =
     (case json_Marshal p of
        Inl err \<Rightarrow> Some (Some (ErrMarshal domain err), Add ''cacheMarshalErrors'' w)
      | Inr bytes \<Rightarrow>
          let expires = now w + MaxAge p;
              chTime = (\<lambda>fname. os_Chtimes E fname expires)
          in case domainPath c domain of
               None \<Rightarrow> None
             | Some fname \<Rightarrow>
                 (case safeio_WriteFile E fname bytes chTime w of
                    (Some err, w) \<Rightarrow> Some (Some err, Add ''cacheIOErrors'' w)
                  | (None, w) \<Rightarrow> Some (None, w)))"

text \<open>\<open>PolicyCache.Fetch\<close>, the read-through entry point of the cache.\<close>

definition cache_Fetch ::
  "env \<Rightarrow> PolicyCache \<Rightarrow> Context \<Rightarrow> string \<Rightarrow> world \<Rightarrow> ((error + Policy) \<times> world) option" where
  "cache_Fetch E c ctx domain w =
     (let w = Add ''cacheFetches'' w in
      case load E c domain w of
        None \<Rightarrow> None
      | Some (Inr p, w) \<Rightarrow> Some (Inr p, Add ''cacheHits'' w)
      | Some (Inl _, w) \<Rightarrow>
          (case Fetch E ctx domain w of
             (Inl err, w) \<Rightarrow> Some (Inl err, Add ''cacheFailedFetch'' w)
           | (Inr p, w) \<Rightarrow>
               (case store E c domain p w of
                  None \<Rightarrow> None
                | Some (_, w) \<Rightarrow> Some (Inr p, w))))"

subsection \<open>The refresher\<close>

definition Minute :: int where "Minute = 60 * Second"

text \<open>The body of the loop of \<open>refresh\<close>, for one directory entry.\<close>

definition refreshEntry ::
  "env \<Rightarrow> PolicyCache \<Rightarrow> Context \<Rightarrow> string \<Rightarrow> world \<Rightarrow> world option" where
  "refreshEntry E c ctx name w =
     (if \<not> prefix pathPrefix name then Some w
      else
        let domain = drop (length pathPrefix) name;
            w = Add ''cacheRefreshes'' w;
            fetchCtx = WithTimeout ctx (30 * Second) (now w)
        in case Fetch E fetchCtx domain w of
             (Inl err, w) \<Rightarrow> Some (Add ''cacheRefreshErrors'' w)
           | (Inr p, w) \<Rightarrow>
               (case store E c domain p w of
                  None \<Rightarrow> None
                | Some (_, w) \<Rightarrow> Some w))"

fun refreshEntries ::
  "env \<Rightarrow> PolicyCache \<Rightarrow> Context \<Rightarrow> string list \<Rightarrow> world \<Rightarrow> world option" where
  "refreshEntries E c ctx [] w = Some w"
| "refreshEntries E c ctx (name # entries) w =
     (case refreshEntry E c ctx name w of
        None \<Rightarrow> None
      | Some w \<Rightarrow> refreshEntries E c ctx entries w)"

definition refresh :: "env \<Rightarrow> PolicyCache \<Rightarrow> Context \<Rightarrow> world \<Rightarrow> world option" where
  "refresh E c ctx w =
     (case os_ReadDir E (dir c) w of
        Inl err \<Rightarrow> Some w
      | Inr entries \<Rightarrow> refreshEntries E c ctx entries w)"

definition time_Sleep :: "int \<Rightarrow> world \<Rightarrow> world" where
  "time_Sleep d w = (if d \<le> 0 then w else w\<lparr>now := now w + d\<rparr>)"

text \<open>
  \<open>PeriodicallyRefresh\<close> loops for as long as the context is not done, which may be for
  ever: the outer \<open>None\<close> stands for a call that does not return, \<open>Some None\<close> for a
  panic, \<open>Some (Some w)\<close> for a return in the world \<open>w\<close>.
\<close>

partial_function (option) PeriodicallyRefresh ::
  "env \<Rightarrow> PolicyCache \<Rightarrow> Context \<Rightarrow> world \<Rightarrow> world option option" where
  "PeriodicallyRefresh E c ctx w =
     (if ctx_Err ctx w = None then
        (case refresh E c ctx w of
           None \<Rightarrow> Some None
         | Some w \<Rightarrow>
             PeriodicallyRefresh E c ctx (time_Sleep (10 * Minute) (Add ''cacheRefreshCycles'' w)))
      else Some (Some w))"

subsection \<open>What the specification says of the parser and of MX matching\<close>

text \<open>
  The parser as the specification words it: a line with a colon is a key and a value, the
  text before and after the first colon, both trimmed; the policy holds the last value of
  \<open>version\<close>, of \<open>mode\<close> and of \<open>max_age\<close>, and the values of \<open>mx\<close> in their
  order; nothing else of the text counts.
\<close>

definition keyValue :: "string \<Rightarrow> (string \<times> string) option" where
  "keyValue text =
     (if CHR '':'' \<in> set text
      then Some (TrimSpace (takeWhile (\<lambda>c. c \<noteq> CHR '':'') text),
                 TrimSpace (drop (Suc (length (takeWhile (\<lambda>c. c \<noteq> CHR '':'') text))) text))
      else None)"

definition keyValues :: "string list \<Rightarrow> (string \<times> string) list" where
  "keyValues toks = List.map_filter keyValue toks"

definition valuesOf :: "string \<Rightarrow> (string \<times> string) list \<Rightarrow> string list" where
  "valuesOf k kvs = map snd (filter (\<lambda>kv. fst kv = k) kvs)"

definition lastOr :: "'a \<Rightarrow> 'a list \<Rightarrow> 'a" where
  "lastOr d xs = (if xs = [] then d else last xs)"

definition policyOfLines :: "string list \<Rightarrow> Policy" where
  "policyOfLines toks =
     (let kvs = keyValues toks in
      \<lparr>Version = lastOr [] (valuesOf ''version'' kvs),
       Mode = lastOr [] (valuesOf ''mode'' kvs),
       MXs = valuesOf ''mx'' kvs,
       MaxAge = lastOr 0 (map (\<lambda>v. wrap64 (fst (Atoi v) * Second)) (valuesOf ''max_age'' kvs))\<rparr>)"

text \<open>
  Matching as the specification words it. A name is normalised by stripping its trailing
  dot, putting it in lower case and converting it to ASCII by IDNA, which may fail. A
  pattern matches a candidate when both normalise and the two are equal then, or the
  normalised pattern begins with \<open>*.\<close> and what follows the first dot of the normalised
  candidate is what follows \<open>*.\<close> in the pattern.
\<close>

definition stripTrailingDot :: "string \<Rightarrow> string" where
  "stripTrailingDot s = (if s \<noteq> [] \<and> last s = CHR ''.'' then butlast s else s)"

definition normalised :: "'a libs_scheme \<Rightarrow> string \<Rightarrow> string option" where
  "normalised L s =
     (case idna_ToASCII L (strings_ToLower L (stripTrailingDot s)) of
        Inl err \<Rightarrow> None
      | Inr ascii \<Rightarrow> Some ascii)"

definition tailAfterFirstDot :: "string \<Rightarrow> string option" where
  "tailAfterFirstDot s =
     (if CHR ''.'' \<in> set s then Some (tl (dropWhile (\<lambda>c. c \<noteq> CHR ''.'') s)) else None)"

definition patternMatches :: "'a libs_scheme \<Rightarrow> string \<Rightarrow> string \<Rightarrow> bool" where
  "patternMatches L pattern candidate =
     (case (normalised L candidate, normalised L pattern) of
        (Some d, Some q) \<Rightarrow> d = q \<or> (take 2 q = ''*.'' \<and> tailAfterFirstDot d = Some (drop 2 q))
      | _ \<Rightarrow> False)"

subsection \<open>Example inputs\<close>

text \<open>
  Libraries for the names and headers of the examples. \<open>strings.ToLower\<close> maps the
  letters A to Z and leaves every other byte, as the library does for text whose other
  letters are in lower case already. \<open>idna.ToASCII\<close> gives the name \<open>buecher\<close>
  below, whose second letter is a u with umlaut (the bytes C3 BC in UTF-8), its Punycode
  form \<open>xn--bcher-kva.example\<close>, and leaves the other names of the examples, which are
  ASCII with no label that starts with \<open>xn--\<close>, as they are.
  \<open>mime.ParseMediaType\<close> takes the text before the first semicolon, trimmed and in lower
  case, for the media type, and fails with \<open>mime: no media type\<close> when it is empty; a
  parameter section that is not a lone semicolon and has no equals sign is the error
  \<open>ErrInvalidMediaParameter\<close>, returned with the media type; the parameters of the
  examples that have an equals sign are well formed.
\<close>

definition asciiLower :: "string \<Rightarrow> string" where
  "asciiLower s =
     map (\<lambda>c. case map_of (zip ''ABCDEFGHIJKLMNOPQRSTUVWXYZ'' ''abcdefghijklmnopqrstuvwxyz'') c of
                 None \<Rightarrow> c | Some l \<Rightarrow> l) s"

definition buecher :: string where
  "buecher = ''b'' @ [CHR 0xC3, CHR 0xBC] @ ''cher.example''"

definition exampleToASCII :: "string \<Rightarrow> error + string" where
  "exampleToASCII s = (if s = buecher then Inr ''xn--bcher-kva.example'' else Inr s)"

definition exampleParseMediaType :: "string \<Rightarrow> string \<times> error option" where
  "exampleParseMediaType v =
     (let base = takeWhile (\<lambda>c. c \<noteq> CHR '';'') v;
          mediatype = TrimSpace (asciiLower base);
          params = drop (length base) v
      in if mediatype = [] then ([], Some ErrNoMediaType)
         else if params = [] \<or> TrimSpace params = '';'' then (mediatype, None)
         else if CHR ''='' \<in> set params then (mediatype, None)
         else (mediatype, Some ErrInvalidMediaParameter))"

definition asciiLibs :: libs where
  "asciiLibs =
     \<lparr>idna_ToASCII = exampleToASCII,
      strings_ToLower = asciiLower,
      mime_ParseMediaType = exampleParseMediaType\<rparr>"

text \<open>\<open>utf8.ValidString\<close>: the string is a sequence of valid UTF-8 encodings.\<close>

function validUTF8 :: "string \<Rightarrow> bool" where
  "validUTF8 s =
     (if s = [] then True
      else if runeLen s = 0 then False
      else validUTF8 (drop (runeLen s) s))"
  by pat_completeness auto
termination
  by (relation "measure length") auto

declare validUTF8.simps [simp del]

text \<open>
  The request for \<open>url\<close> under \<open>ctx\<close> is answered: the context is not done when the
  request is made, nor when the answer arrives.
\<close>

definition answered :: "env \<Rightarrow> Context \<Rightarrow> string \<Rightarrow> world \<Rightarrow> nat \<Rightarrow> reply \<Rightarrow> bool" where
  "answered E ctx url w took answer =
     (ctx_Err ctx w = None \<and> webServer E url (now w) = (took, answer)
      \<and> (case doneAt ctx of None \<Rightarrow> True | Some t \<Rightarrow> now w + int took < t))"

text \<open>The DNS and HTTP activity that a log records.\<close>

fun isNetwork :: "event \<Rightarrow> bool" where
  "isNetwork (EvLookupTXT name) = True"
| "isNetwork (EvHTTPGet url) = True"
| "isNetwork (EvReadFile fname) = False"
| "isNetwork (EvFetch domain ctx) = False"

definition networkEvents :: "world \<Rightarrow> (int \<times> event) list" where
  "networkEvents w = filter (\<lambda>te. isNetwork (snd te)) (log w)"

text \<open>The HTTP requests that a log records at the instant \<open>T\<close> or later.\<close>

fun isHTTPGet :: "event \<Rightarrow> bool" where
  "isHTTPGet (EvHTTPGet url) = True"
| "isHTTPGet (EvLookupTXT name) = False"
| "isHTTPGet (EvReadFile fname) = False"
| "isHTTPGet (EvFetch domain ctx) = False"

definition lateRequests :: "int \<Rightarrow> world \<Rightarrow> (int \<times> event) list" where
  "lateRequests T w = filter (\<lambda>te. isHTTPGet (snd te) \<and> T \<le> fst te) (log w)"

text \<open>The entries into the fetch pipeline that a log records.\<close>

fun fetchCall :: "int \<times> event \<Rightarrow> (int \<times> string \<times> Context) option" where
  "fetchCall (t, EvFetch domain ctx) = Some (t, domain, ctx)"
| "fetchCall (t, EvLookupTXT name) = None"
| "fetchCall (t, EvHTTPGet url) = None"
| "fetchCall (t, EvReadFile fname) = None"

definition fetchCalls :: "world \<Rightarrow> (int \<times> string \<times> Context) list" where
  "fetchCalls w = List.map_filter fetchCall (log w)"

text \<open>
  A domain that publishes the policy of the specification's first scenario: its TXT record,
  which the DNS gives after 5 ns, and its policy document, which the web server gives after
  7 ns. Other names do not resolve. The file system has no failures, and the JSON decoder
  rejects every document of a shape the model does not read.
\<close>

definition examplePolicy :: Policy where
  "examplePolicy =
     \<lparr>Version = ''STSv1'', Mode = Enforce, MXs = [''mail.example.com''],
      MaxAge = 86400 * Second\<rparr>"

definition exampleBody :: string where
  "exampleBody =
     ''version: STSv1'' @ [CHR 0x0A] @ ''mode: enforce'' @ [CHR 0x0A]
     @ ''mx: mail.example.com'' @ [CHR 0x0A] @ ''max_age: 86400'' @ [CHR 0x0A]"

definition exampleEnv :: env where
  "exampleEnv =
     \<lparr>idna_ToASCII = idna_ToASCII asciiLibs,
      strings_ToLower = strings_ToLower asciiLibs,
      mime_ParseMediaType = mime_ParseMediaType asciiLibs,
      lookupTXT = (\<lambda>name t.
         (5, if name = ''_mta-sts.example.com'' then Inr [''v=spf1 -all'', ''v=STSv1; id=abc'']
             else Inl (ErrDNS ''no such host''))),
      webServer = (\<lambda>url t.
         (7, if url = ''https://mta-sts.example.com/.well-known/mta-sts.txt''
             then Response 200 ''text/plain; charset=utf-8'' exampleBody None
             else TransportFailure ''connection refused'')),
      fsFault = (\<lambda>operation fname t. None),
      fakeURLForTesting = [],
      json_other = (\<lambda>bytes. Inl (ErrUnmarshal ''invalid character''))\<rparr>"

text \<open>The example, with a web server that gives the same answer to every request.\<close>

definition serverOf :: "reply \<Rightarrow> env" where
  "serverOf answer = exampleEnv\<lparr>webServer := (\<lambda>url t. (7, answer))\<rparr>"

definition exampleCache :: PolicyCache where
  "exampleCache = \<lparr>dir = ''/var/sts''\<rparr>"

definition background :: Context where
  "background = \<lparr>cancelAt = None, deadline = None\<rparr>"

definition worldAt :: "int \<Rightarrow> (string \<times> osfile) list \<Rightarrow> world" where
  "worldAt t fs = \<lparr>now = t, files = fs, counters = (\<lambda>name. 0), log = []\<rparr>"

section \<open>The parser\<close>

lemma take_takeWhile:
  "n \<le> length (takeWhile P xs) \<Longrightarrow> \<forall>x \<in> set (take n xs). P x"
proof (induction xs arbitrary: n)
  case Nil
  then show ?case by simp
next
  case (Cons x xs)
  then show ?case
    by (cases n) (auto split: if_splits)
qed

text \<open>
  The scanner delivers all the lines when no 65536 bytes in a row are without a newline.
\<close>

lemma scanLines_windows:
  "\<forall>i. i + 65536 \<le> length raw \<longrightarrow> CHR 0x0A \<in> set (take 65536 (drop i raw))
   \<Longrightarrow> snd (scanLines raw) = None"
proof (induction raw rule: scanLines.induct)
  case (1 raw)
  let ?line = "takeWhile (\<lambda>c. c \<noteq> CHR 0x0A) raw"
  have len: "length ?line \<le> length raw"
    by (rule length_takeWhile_le)
  show ?case
  proof (cases "raw = []")
    case True
    then show ?thesis by (simp add: scanLines.simps)
  next
    case False
    have small: "\<not> int (length ?line) \<ge> MaxScanTokenSize"
    proof
      assume "int (length ?line) \<ge> MaxScanTokenSize"
      then have long: "65536 \<le> length ?line"
        by (simp add: MaxScanTokenSize_def)
      with len "1.prems" [rule_format, of 0] have "CHR 0x0A \<in> set (take 65536 raw)"
        by simp
      with take_takeWhile [OF long] show False
        by blast
    qed
    show ?thesis
    proof (cases "length ?line = length raw")
      case True
      with False small show ?thesis
        by (subst scanLines.simps) simp
    next
      case ne: False
      let ?rest = "drop (length ?line + 1) raw"
      have "\<forall>i. i + 65536 \<le> length ?rest \<longrightarrow> CHR 0x0A \<in> set (take 65536 (drop i ?rest))"
      proof (intro allI impI)
        fix i assume "i + 65536 \<le> length ?rest"
        then have "(i + (length ?line + 1)) + 65536 \<le> length raw"
          by simp
        from "1.prems" [rule_format, OF this]
        show "CHR 0x0A \<in> set (take 65536 (drop i ?rest))"
          by (simp add: add.commute)
      qed
      from "1.IH" [OF False refl small ne this]
      have "snd (scanLines ?rest) = None" .
      with False small ne show ?thesis
        by (subst scanLines.simps) (simp add: split_beta Let_def)
    qed
  qed
qed

lemma scanLines_error:
  "snd (scanLines raw) = None \<or> snd (scanLines raw) = Some ErrTooLong"
proof (induction raw rule: scanLines.induct)
  case (1 raw)
  let ?line = "takeWhile (\<lambda>c. c \<noteq> CHR 0x0A) raw"
  show ?case
  proof (cases "raw = [] \<or> int (length ?line) \<ge> MaxScanTokenSize \<or> length ?line = length raw")
    case True
    then show ?thesis
      by (subst (1 2) scanLines.simps) (auto simp: Let_def)
  next
    case False
    with "1.IH" [of ?line] have "snd (scanLines (drop (length ?line + 1) raw)) = None
        \<or> snd (scanLines (drop (length ?line + 1) raw)) = Some ErrTooLong"
      by simp
    with False show ?thesis
      by (subst (1 2) scanLines.simps) (auto simp: split_beta Let_def)
  qed
qed

text \<open>The body that \<open>httpGet\<close> returns has 10240 bytes at most.\<close>

lemma httpGet_body_length:
  assumes "httpGet E ctx url w = (Inr body, w')"
  shows "length body \<le> 10240"
proof -
  from assms obtain full bodyErr where "ReadAll_LimitedReader full bodyErr (10 * 1024) = Inr body"
    by (auto simp: httpGet_def split: prod.splits sum.splits if_splits option.splits)
  then show ?thesis
    by (auto simp: ReadAll_LimitedReader_def split: if_splits option.splits)
qed

lemma scanLines_too_long:
  assumes "\<forall>c \<in> set raw. c \<noteq> CHR 0x0A" and "length raw \<ge> 65536"
  shows "scanLines raw = ([], Some ErrTooLong)"
proof -
  have tw: "takeWhile (\<lambda>c. c \<noteq> CHR 0x0A) raw = raw"
    using assms(1) by (simp add: takeWhile_eq_all_conv)
  have ne: "raw \<noteq> []"
    using assms(2) by auto
  show ?thesis
    by (subst scanLines.simps) (simp add: MaxScanTokenSize_def Let_def tw ne assms(2))
qed

lemma parseLine_keyValue:
  "parseLine p text =
     (case keyValue text of
        None \<Rightarrow> p
      | Some (key, value) \<Rightarrow>
          if key = ''version'' then p\<lparr>Version := value\<rparr>
          else if key = ''mode'' then p\<lparr>Mode := value\<rparr>
          else if key = ''max_age'' then p\<lparr>MaxAge := wrap64 (fst (Atoi value) * Second)\<rparr>
          else if key = ''mx'' then p\<lparr>MXs := MXs p @ [value]\<rparr>
          else p)"
proof (cases "CHR '':'' \<in> set text")
  case True
  have "dropWhile (\<lambda>c. c \<noteq> CHR '':'') text \<noteq> []"
    using True by (simp add: dropWhile_eq_Nil_conv)
  then have "tl (dropWhile (\<lambda>c. c \<noteq> CHR '':'') text)
      = drop (Suc (length (takeWhile (\<lambda>c. c \<noteq> CHR '':'') text))) text"
    by (simp add: dropWhile_eq_drop drop_Suc tl_drop)
  with True show ?thesis
    by (simp add: parseLine_def keyValue_def SplitN2_def Let_def)
next
  case False
  then show ?thesis
    by (simp add: parseLine_def keyValue_def SplitN2_def)
qed

lemma keyValues_snoc:
  "keyValues (toks @ [t]) = keyValues toks @ (case keyValue t of None \<Rightarrow> [] | Some kv \<Rightarrow> [kv])"
  by (simp add: keyValues_def List.map_filter_def split: option.splits)

lemma foldl_parseLine:
  "foldl parseLine p toks =
     (let kvs = keyValues toks in
      \<lparr>Version = lastOr (Version p) (valuesOf ''version'' kvs),
       Mode = lastOr (Mode p) (valuesOf ''mode'' kvs),
       MXs = MXs p @ valuesOf ''mx'' kvs,
       MaxAge = lastOr (MaxAge p)
                  (map (\<lambda>v. wrap64 (fst (Atoi v) * Second)) (valuesOf ''max_age'' kvs))\<rparr>)"
proof (induction toks rule: rev_induct)
  case Nil
  show ?case
    by (simp add: keyValues_def List.map_filter_def valuesOf_def lastOr_def)
next
  case (snoc t toks)
  show ?case
  proof (cases "keyValue t")
    case None
    then show ?thesis
      using snoc by (simp add: keyValues_snoc parseLine_keyValue Let_def)
  next
    case (Some kv)
    obtain key val where kv: "kv = (key, val)" by (cases kv)
    show ?thesis
      using snoc Some kv
      by (simp add: keyValues_snoc parseLine_keyValue Let_def valuesOf_def lastOr_def)
  qed
qed

lemma Check_accepts_iff:
  "Check p = None \<longleftrightarrow>
     Version p = ''STSv1'' \<and> 0 < MaxAge p \<and> MaxAge p \<le> 31557600 * Second
     \<and> Mode p \<in> {Enforce, Testing, None_mode} \<and> MXs p \<noteq> []"
  by (auto simp: Check_def)

text \<open>
  C4. A policy document whose \<open>max_age\<close> line holds the decimal integer
  36028797018963969, far more than a year of seconds: the multiplication by a second wraps
  around in 64 bits, the parser sets a \<open>max_age\<close> of one second, and the validity check
  accepts the policy. And a value too large for \<open>strconv.Atoi\<close>, which fails to parse,
  leaves a \<open>max_age\<close> of minus one second, not of zero.
\<close>

theorem parsePolicy_max_age_wraps:
  "parsePolicy (''version: STSv1'' @ [CHR 0x0A] @ ''mode: enforce'' @ [CHR 0x0A]
                @ ''mx: a'' @ [CHR 0x0A] @ ''max_age: 36028797018963969'' @ [CHR 0x0A])
     = Inr \<lparr>Version = ''STSv1'', Mode = ''enforce'', MXs = [''a''], MaxAge = 1 * Second\<rparr>
   \<and> Check \<lparr>Version = ''STSv1'', Mode = ''enforce'', MXs = [''a''], MaxAge = 1 * Second\<rparr> = None
   \<and> snd (Atoi ''99999999999999999999'') = Some ErrRange
   \<and> parsePolicy ''max_age: 99999999999999999999''
     = Inr \<lparr>Version = [], Mode = [], MXs = [], MaxAge = - 1 * Second\<rparr>"
  by code_simp

text \<open>
  C6. The parser processes its buffer line by line: each line is split at its first
  colon into a key and a value, both trimmed; lines with no colon and lines with other keys
  count for nothing; \<open>version\<close>, \<open>mode\<close> and \<open>max_age\<close> are those of the last such
  line, and the \<open>mx\<close> values are kept in their order of appearance. Whatever the
  content, the parser does not fail on a buffer in which no 65536 bytes in a row are without
  a newline, which is every buffer it is given: its one caller passes the body that
  \<open>httpGet\<close> returns, of 10240 bytes at most. Its only error is that of the scanner
  that reads the buffer.
\<close>

theorem parsePolicy_by_lines:
  "((\<forall>i. i + 65536 \<le> length raw \<longrightarrow> CHR 0x0A \<in> set (take 65536 (drop i raw)))
      \<longrightarrow> parsePolicy raw = Inr (policyOfLines (fst (scanLines raw))))
   \<and> (\<forall>body w'. httpGet E ctx url w = (Inr body, w')
        \<longrightarrow> parsePolicy body = Inr (policyOfLines (fst (scanLines body))))
   \<and> (\<forall>err. parsePolicy raw = Inl err \<longrightarrow> err = ErrTooLong)"
proof -
  have ok: "parsePolicy r = Inr (policyOfLines (fst (scanLines r)))"
    if "snd (scanLines r) = None" for r
  proof -
    obtain toks err where sc: "scanLines r = (toks, err)"
      by (cases "scanLines r")
    with that have "err = None" by simp
    with sc show ?thesis
      by (simp add: parsePolicy_def foldl_parseLine policyOfLines_def emptyPolicy_def Let_def)
  qed
  have a: "(\<forall>i. i + 65536 \<le> length raw \<longrightarrow> CHR 0x0A \<in> set (take 65536 (drop i raw)))
      \<longrightarrow> parsePolicy raw = Inr (policyOfLines (fst (scanLines raw)))"
    using ok scanLines_windows by blast
  have b: "parsePolicy body = Inr (policyOfLines (fst (scanLines body)))"
    if "httpGet E ctx url w = (Inr body, w')" for body w'
  proof -
    from httpGet_body_length [OF that] have "length body \<le> 10240" .
    then have "\<forall>i. i + 65536 \<le> length body \<longrightarrow> CHR 0x0A \<in> set (take 65536 (drop i body))"
      by simp
    from ok [OF scanLines_windows [OF this] ] show ?thesis .
  qed
  have c: "err = ErrTooLong" if "parsePolicy raw = Inl err" for err
    using that scanLines_error [of raw]
    by (cases "scanLines raw") (auto simp: parsePolicy_def Let_def split: option.splits)
  from a b c show ?thesis
    by blast
qed

theorem parsePolicy_by_lines_witness:
  "fst (httpGet (serverOf (Response 200 ''text/plain''
          (''mx: b.example'' @ [CHR 0x0D, CHR 0x0A] @ ''junk'' @ [CHR 0x0A]
           @ '' version : STSv1 '' @ [CHR 0x0A] @ ''colour: red'' @ [CHR 0x0A]
           @ ''mx:a.example'' @ [CHR 0x0A] @ ''mode: testing'') None))
        background ''u'' (worldAt 0 []))
     = Inr (''mx: b.example'' @ [CHR 0x0D, CHR 0x0A] @ ''junk'' @ [CHR 0x0A]
           @ '' version : STSv1 '' @ [CHR 0x0A] @ ''colour: red'' @ [CHR 0x0A]
           @ ''mx:a.example'' @ [CHR 0x0A] @ ''mode: testing'')
   \<and> parsePolicy (''mx: b.example'' @ [CHR 0x0D, CHR 0x0A] @ ''junk'' @ [CHR 0x0A]
           @ '' version : STSv1 '' @ [CHR 0x0A] @ ''colour: red'' @ [CHR 0x0A]
           @ ''mx:a.example'' @ [CHR 0x0A] @ ''mode: testing'')
     = Inr \<lparr>Version = ''STSv1'', Mode = ''testing'', MXs = [''b.example'', ''a.example''],
            MaxAge = 0\<rparr>"
proof -
  let ?raw = "''mx: b.example'' @ [CHR 0x0D, CHR 0x0A] @ ''junk'' @ [CHR 0x0A]
           @ '' version : STSv1 '' @ [CHR 0x0A] @ ''colour: red'' @ [CHR 0x0A]
           @ ''mx:a.example'' @ [CHR 0x0A] @ ''mode: testing''"
  let ?E = "serverOf (Response 200 ''text/plain'' ?raw None)"
  have got: "fst (httpGet ?E background ''u'' (worldAt 0 [])) = Inr ?raw"
    by code_simp
  then obtain w' where g: "httpGet ?E background ''u'' (worldAt 0 []) = (Inr ?raw, w')"
    by (cases "httpGet ?E background ''u'' (worldAt 0 [])") auto
  have lines: "policyOfLines (fst (scanLines ?raw))
      = \<lparr>Version = ''STSv1'', Mode = ''testing'', MXs = [''b.example'', ''a.example''],
         MaxAge = 0\<rparr>"
    by code_simp
  from parsePolicy_by_lines [of ?raw ?E background "''u''" "worldAt 0 []",
      THEN conjunct2, THEN conjunct1, rule_format, OF g] lines got
  show ?thesis by simp
qed

section \<open>MX matching\<close>

lemma matchAny_iff:
  "matchAny L mx patterns \<longleftrightarrow> (\<exists>pattern \<in> set patterns. matchDomain L mx pattern)"
  by (induction patterns) auto

lemma prefix_star_dot:
  "prefix ''*.'' q \<longleftrightarrow> take 2 q = ''*.''"
proof
  assume "prefix ''*.'' q"
  then obtain r where "q = ''*.'' @ r" by (auto simp: prefix_def)
  then show "take 2 q = ''*.''" by simp
next
  assume "take 2 q = ''*.''"
  then have "q = ''*.'' @ drop 2 q"
    by (metis append_take_drop_id)
  then show "prefix ''*.'' q"
    by (metis prefixI)
qed

lemma SplitN2_tail:
  "(length (SplitN2 (CHR ''.'') d) > 1 \<and> SplitN2 (CHR ''.'') d ! 1 = t)
     \<longleftrightarrow> tailAfterFirstDot d = Some t"
  by (auto simp: SplitN2_def tailAfterFirstDot_def)

lemma TrimSuffix_dot: "TrimSuffix s ''.'' = stripTrailingDot s"
proof (cases s rule: rev_cases)
  case Nil
  then show ?thesis
    by (simp add: TrimSuffix_def stripTrailingDot_def)
next
  case (snoc xs x)
  then show ?thesis
    by (simp add: TrimSuffix_def stripTrailingDot_def suffix_def)
qed

lemma domainToASCII_normalised:
  "normalised L s = (case domainToASCII L s of Inl err \<Rightarrow> None | Inr ascii \<Rightarrow> Some ascii)"
  by (simp add: normalised_def domainToASCII_def TrimSuffix_dot)

lemma matchDomain_patternMatches:
  "matchDomain L mx pattern \<longleftrightarrow> patternMatches L pattern mx"
proof (cases "domainToASCII L mx")
  case (Inl e)
  then show ?thesis
    by (simp add: matchDomain_def patternMatches_def domainToASCII_normalised)
next
  case d: (Inr d)
  show ?thesis
  proof (cases "domainToASCII L pattern")
    case (Inl e)
    with d show ?thesis
      by (simp add: matchDomain_def patternMatches_def domainToASCII_normalised)
  next
    case (Inr q)
    with d show ?thesis
      using SplitN2_tail [of d "drop 2 q"]
      by (auto simp: matchDomain_def patternMatches_def domainToASCII_normalised
          prefix_star_dot Let_def)
  qed
qed

text \<open>
  C5. \<open>MXIsAllowed\<close> is true whenever the mode is not \<open>enforce\<close>; in mode \<open>enforce\<close>
  it is true exactly when some pattern of the policy matches the candidate. A pattern
  matches when both names normalise (trailing dot stripped, lower case, IDNA to ASCII, on
  both sides) and either are equal then, or the pattern begins with \<open>*.\<close> and the
  candidate's tail after its first dot is the pattern's text after \<open>*.\<close>. With libraries
  that leave the four names of the example as they are, \<open>*.example.net\<close> matches
  \<open>a.example.net\<close> and neither \<open>example.net\<close> nor \<open>a.b.example.net\<close>.
\<close>

theorem MXIsAllowed_spec:
  "(MXIsAllowed L p mx \<longleftrightarrow>
      Mode p \<noteq> Enforce \<or> (\<exists>pattern \<in> set (MXs p). patternMatches L pattern mx))
   \<and> ((\<forall>s \<in> set [''*.example.net'', ''a.example.net'', ''example.net'', ''a.b.example.net''].
          strings_ToLower L s = s \<and> idna_ToASCII L s = Inr s)
        \<longrightarrow> matchDomain L ''a.example.net'' ''*.example.net''
          \<and> \<not> matchDomain L ''example.net'' ''*.example.net''
          \<and> \<not> matchDomain L ''a.b.example.net'' ''*.example.net'')"
proof
  show "MXIsAllowed L p mx \<longleftrightarrow>
      Mode p \<noteq> Enforce \<or> (\<exists>pattern \<in> set (MXs p). patternMatches L pattern mx)"
    by (simp add: MXIsAllowed_def matchAny_iff matchDomain_patternMatches)
next
  show "(\<forall>s \<in> set [''*.example.net'', ''a.example.net'', ''example.net'', ''a.b.example.net''].
          strings_ToLower L s = s \<and> idna_ToASCII L s = Inr s)
        \<longrightarrow> matchDomain L ''a.example.net'' ''*.example.net''
          \<and> \<not> matchDomain L ''example.net'' ''*.example.net''
          \<and> \<not> matchDomain L ''a.b.example.net'' ''*.example.net''"
    by (simp add: matchDomain_def domainToASCII_def TrimSuffix_dot stripTrailingDot_def
        SplitN2_def)
qed

text \<open>
  The witness has a candidate that is not ASCII and is written with capitals and a
  trailing dot: it matches the pattern that is its Punycode form, itself written with
  capitals, only through the three steps of the normalisation on both sides, and it
  matches no pattern of another domain.
\<close>

theorem MXIsAllowed_spec_witness:
  "strings_ToLower asciiLibs ''*.example.net'' = ''*.example.net''
   \<and> idna_ToASCII asciiLibs ''*.example.net'' = Inr ''*.example.net''
   \<and> strings_ToLower asciiLibs ''a.example.net'' = ''a.example.net''
   \<and> idna_ToASCII asciiLibs ''a.example.net'' = Inr ''a.example.net''
   \<and> strings_ToLower asciiLibs ''example.net'' = ''example.net''
   \<and> idna_ToASCII asciiLibs ''example.net'' = Inr ''example.net''
   \<and> strings_ToLower asciiLibs ''a.b.example.net'' = ''a.b.example.net''
   \<and> idna_ToASCII asciiLibs ''a.b.example.net'' = Inr ''a.b.example.net''
   \<and> matchDomain asciiLibs ''a.example.net'' ''*.example.net''
   \<and> \<not> matchDomain asciiLibs ''example.net'' ''*.example.net''
   \<and> \<not> matchDomain asciiLibs ''a.b.example.net'' ''*.example.net''
   \<and> normalised asciiLibs (''B'' @ [CHR 0xC3, CHR 0xBC] @ ''CHER.Example.'')
       = Some ''xn--bcher-kva.example''
   \<and> MXIsAllowed asciiLibs
        \<lparr>Version = ''STSv1'', Mode = Enforce, MXs = [''mail.example.com'', ''XN--bcher-kva.example''],
         MaxAge = 86400 * Second\<rparr> (''B'' @ [CHR 0xC3, CHR 0xBC] @ ''CHER.Example.'')
   \<and> \<not> MXIsAllowed asciiLibs
        \<lparr>Version = ''STSv1'', Mode = Enforce, MXs = [''mail.example.com'', ''*.example.net''],
         MaxAge = 86400 * Second\<rparr> (''B'' @ [CHR 0xC3, CHR 0xBC] @ ''CHER.Example.'')
   \<and> MXIsAllowed asciiLibs
        \<lparr>Version = ''STSv1'', Mode = Testing, MXs = [''mail.example.com'', ''*.example.net''],
         MaxAge = 86400 * Second\<rparr> (''B'' @ [CHR 0xC3, CHR 0xBC] @ ''CHER.Example.'')"
proof -
  let ?names = "[''*.example.net'', ''a.example.net'', ''example.net'', ''a.b.example.net'']"
  let ?mx = "''B'' @ [CHR 0xC3, CHR 0xBC] @ ''CHER.Example.''"
  let ?p1 = "\<lparr>Version = ''STSv1'', Mode = Enforce,
             MXs = [''mail.example.com'', ''XN--bcher-kva.example''], MaxAge = 86400 * Second\<rparr>"
  let ?p2 = "\<lparr>Version = ''STSv1'', Mode = Enforce,
             MXs = [''mail.example.com'', ''*.example.net''], MaxAge = 86400 * Second\<rparr>"
  note defs = normalised_def stripTrailingDot_def asciiLibs_def asciiLower_def
    exampleToASCII_def buecher_def
  have libs: "\<forall>s \<in> set ?names. strings_ToLower asciiLibs s = s \<and> idna_ToASCII asciiLibs s = Inr s"
    by (simp add: defs)
  have n0: "normalised asciiLibs ?mx = Some ''xn--bcher-kva.example''"
    by (simp add: defs)
  have n1: "normalised asciiLibs ''XN--bcher-kva.example'' = Some ''xn--bcher-kva.example''"
    by (simp add: defs)
  have n2: "normalised asciiLibs ''mail.example.com'' = Some ''mail.example.com''"
    by (simp add: defs)
  have n3: "normalised asciiLibs ''*.example.net'' = Some ''*.example.net''"
    by (simp add: defs)
  have m1: "patternMatches asciiLibs ''XN--bcher-kva.example'' ?mx"
    using n0 n1 by (simp add: patternMatches_def)
  have m2: "\<not> patternMatches asciiLibs ''mail.example.com'' ?mx"
    using n0 n2 by (simp add: patternMatches_def tailAfterFirstDot_def)
  have m3: "\<not> patternMatches asciiLibs ''*.example.net'' ?mx"
    using n0 n3 by (simp add: patternMatches_def tailAfterFirstDot_def)
  have modes: "Testing \<noteq> Enforce"
    by (simp add: Testing_def Enforce_def)
  show ?thesis
    using MXIsAllowed_spec [of asciiLibs ?p1 ?mx] MXIsAllowed_spec [of asciiLibs ?p2 ?mx]
      MXIsAllowed_spec [of asciiLibs "?p2\<lparr>Mode := Testing\<rparr>" ?mx]
      libs n0 m1 m2 m3 modes
    by simp
qed

section \<open>What the operations leave alone\<close>

lemma Add_fields [simp]:
  "now (Add name w) = now w" "files (Add name w) = files w" "log (Add name w) = log w"
  by (simp_all add: Add_def)

lemma record_event_fields [simp]:
  "now (record_event e w) = now w" "files (record_event e w) = files w"
  "counters (record_event e w) = counters w" "log (record_event e w) = log w @ [(now w, e)]"
  by (simp_all add: record_event_def)

lemma advance_fields [simp]:
  "now (advance d w) = now w + int d" "files (advance d w) = files w"
  "counters (advance d w) = counters w" "log (advance d w) = log w"
  by (simp_all add: advance_def)

lemma ctx_Err_alive:
  "ctx_Err ctx w = None \<longleftrightarrow> (case doneAt ctx of None \<Rightarrow> True | Some t \<Rightarrow> now w < t)"
  by (simp add: ctx_Err_def split: option.splits)

lemma hasSTSRecord_frame:
  assumes "hasSTSRecord E domain w = (r, w')"
  shows "files w' = files w" and "now w \<le> now w'" and "counters w' = counters w"
    and "\<exists>took. log w' = log w @ [(now w, EvLookupTXT (''_mta-sts.'' @ domain))]
           \<and> now w' = now w + int took"
  using assms
  by (auto simp: hasSTSRecord_def Let_def split: prod.splits sum.splits)

lemma ctxhttp_Get_frame:
  assumes "ctxhttp_Get E ctx url w = (r, w')"
  shows "files w' = files w" and "now w \<le> now w'" and "counters w' = counters w"
    and "log w' = log w \<or> log w' = log w @ [(now w, EvHTTPGet url)]"
  using assms
  by (auto simp: ctxhttp_Get_def ctx_Err_alive Let_def
      split: prod.splits sum.splits option.splits if_splits)

lemma httpGet_frame:
  assumes "httpGet E ctx url w = (r, w')"
  shows "files w' = files w" and "now w \<le> now w'" and "counters w' = counters w"
    and "log w' = log w \<or> log w' = log w @ [(now w, EvHTTPGet url)]"
proof -
  obtain r0 w0 where g: "ctxhttp_Get E ctx url w = (r0, w0)"
    by (cases "ctxhttp_Get E ctx url w")
  have "w' = w0"
    using assms g
    by (auto simp: httpGet_def split: prod.splits sum.splits option.splits if_splits)
  with ctxhttp_Get_frame [OF g]
  show "files w' = files w" and "now w \<le> now w'" and "counters w' = counters w"
    and "log w' = log w \<or> log w' = log w @ [(now w, EvHTTPGet url)]"
    by simp_all
qed

lemma UncheckedFetch_frame:
  assumes "UncheckedFetch E ctx domain w = (r, w')"
  shows "files w' = files w \<and> now w \<le> now w' \<and> counters w' = counters w
    \<and> (\<exists>es. log w' = log w @ es \<and> (\<forall>te \<in> set es. fetchCall te = None))"
proof (cases "idna_ToASCII E domain")
  case (Inl e)
  with assms show ?thesis by (auto simp: UncheckedFetch_def)
next
  case (Inr d)
  obtain r1 w1 where h: "hasSTSRecord E d w = (r1, w1)"
    by (cases "hasSTSRecord E d w")
  from hasSTSRecord_frame(4) [OF h]
  have l1: "log w1 = log w @ [(now w, EvLookupTXT (''_mta-sts.'' @ d))]" by auto
  note f1 = hasSTSRecord_frame(1-3) [OF h]
  show ?thesis
  proof (cases "r1 = Inr True")
    case False
    then have "w' = w1"
      using assms Inr h by (auto simp: UncheckedFetch_def split: sum.splits if_splits)
    with l1 f1 show ?thesis by simp
  next
    case True
    obtain r2 w2 where g: "httpGet E ctx (urlForDomain E d) w1 = (r2, w2)"
      by (cases "httpGet E ctx (urlForDomain E d) w1")
    have "w' = w2"
      using assms Inr h True g
      by (auto simp: UncheckedFetch_def Let_def split: sum.splits)
    with httpGet_frame [OF g] l1 f1 show ?thesis by auto
  qed
qed

lemma Fetch_frame:
  assumes "Fetch E ctx domain w = (r, w')"
  shows "files w' = files w" and "now w \<le> now w'" and "counters w' = counters w"
    and "\<exists>es. log w' = log w @ (now w, EvFetch domain ctx) # es
           \<and> (\<forall>te \<in> set es. fetchCall te = None)"
proof -
  obtain r0 w0 where u: "UncheckedFetch E ctx domain (record_event (EvFetch domain ctx) w) = (r0, w0)"
    by (cases "UncheckedFetch E ctx domain (record_event (EvFetch domain ctx) w)")
  have "w' = w0"
    using assms u by (auto simp: Fetch_def split: sum.splits option.splits)
  with UncheckedFetch_frame [OF u]
  show "files w' = files w" and "now w \<le> now w'" and "counters w' = counters w"
    and "\<exists>es. log w' = log w @ (now w, EvFetch domain ctx) # es
           \<and> (\<forall>te \<in> set es. fetchCall te = None)"
    by auto
qed

lemma json_Marshal_Inr: "json_Marshal p = Inr (projr (json_Marshal p))"
  by (simp add: json_Marshal_def)

lemma store_frame:
  assumes "store E c domain p w = Some (r, w')"
  shows "now w' = now w" and "log w' = log w"
    and "\<exists>fname. domainPath c domain = Some fname
           \<and> (files w' = files w
               \<or> (r \<noteq> None
                   \<and> files w' = AList.update fname \<lparr>data = projr (json_Marshal p), mtime = now w\<rparr>
                                  (files w))
               \<or> (r = None
                   \<and> files w' = AList.update fname \<lparr>data = projr (json_Marshal p),
                                     mtime = now w + MaxAge p\<rparr> (files w)))"
proof -
  define bytes where "bytes = projr (json_Marshal p)"
  have m: "json_Marshal p = Inr bytes"
    unfolding bytes_def by (rule json_Marshal_Inr)
  from assms m show "now w' = now w" and "log w' = log w"
    by (auto simp: store_def safeio_WriteFile_def os_Chtimes_def Let_def
        split: option.splits prod.splits)
  from assms m
  show "\<exists>fname. domainPath c domain = Some fname
           \<and> (files w' = files w
               \<or> (r \<noteq> None
                   \<and> files w' = AList.update fname \<lparr>data = projr (json_Marshal p), mtime = now w\<rparr>
                                  (files w))
               \<or> (r = None
                   \<and> files w' = AList.update fname \<lparr>data = projr (json_Marshal p),
                                     mtime = now w + MaxAge p\<rparr> (files w)))"
    unfolding bytes_def [symmetric]
    by (auto simp: store_def safeio_WriteFile_def os_Chtimes_def Let_def update_conv' update_last
        split: option.splits prod.splits)
      (metis option.exhaust)+
qed

lemma store_success:
  assumes "store E c domain p w = Some (None, w')"
  shows "domainPath c domain = Some (dir c @ ''/pol:'' @ domain)"
    and "files w' = AList.update (dir c @ ''/pol:'' @ domain)
           \<lparr>data = projr (json_Marshal p), mtime = now w + MaxAge p\<rparr> (files w)"
proof -
  define bytes where "bytes = projr (json_Marshal p)"
  have m: "json_Marshal p = Inr bytes"
    unfolding bytes_def by (rule json_Marshal_Inr)
  from assms m show dp: "domainPath c domain = Some (dir c @ ''/pol:'' @ domain)"
    by (auto simp: store_def domainPath_def pathPrefix_def Let_def
        split: option.splits if_splits)
  from assms m dp
  show "files w' = AList.update (dir c @ ''/pol:'' @ domain)
           \<lparr>data = projr (json_Marshal p), mtime = now w + MaxAge p\<rparr> (files w)"
    unfolding bytes_def [symmetric]
    by (auto simp: store_def safeio_WriteFile_def os_Chtimes_def Let_def update_conv' update_last
        split: option.splits prod.splits)
qed

lemma store_no_panic:
  "CHR ''/'' \<notin> set domain \<Longrightarrow> \<exists>r w'. store E c domain p w = Some (r, w')"
  by (auto simp: store_def domainPath_def Let_def split: option.splits prod.splits sum.splits)

lemma load_frame:
  assumes "load E c domain w = Some (r, w')"
  shows "now w' = now w" and "files w' = files w"
    and "CHR ''/'' \<notin> set domain"
    and "networkEvents w' = networkEvents w" and "fetchCalls w' = fetchCalls w"
  using assms
  by (auto simp: load_def domainPath_def os_ReadFile_def Let_def networkEvents_def
      fetchCalls_def List.map_filter_def
      split: option.splits sum.splits prod.splits if_splits)

lemma map_of_update_other:
  "path \<noteq> fname \<Longrightarrow> map_of (AList.update fname f fs) path = map_of fs path"
  by (simp add: update_conv')

lemma networkEvents_Add [simp]: "networkEvents (Add name w) = networkEvents w"
  by (simp add: networkEvents_def)

lemma fetchCalls_Add [simp]: "fetchCalls (Add name w) = fetchCalls w"
  by (simp add: fetchCalls_def)

lemma Fetch_fetchCalls:
  assumes "Fetch E ctx domain w = (r, w')"
  shows "fetchCalls w' = fetchCalls w @ [(now w, domain, ctx)]"
proof -
  from Fetch_frame(4) [OF assms] obtain es
    where l: "log w' = log w @ (now w, EvFetch domain ctx) # es"
      and n: "\<forall>te \<in> set es. fetchCall te = None"
    by blast
  from n have "List.map_filter fetchCall es = []"
    by (induction es) (auto simp: List.map_filter_def)
  with l show ?thesis
    by (simp add: fetchCalls_def List.map_filter_def)
qed

lemma load_unfold:
  assumes "domainPath c domain = Some fname" and "os_Stat E fname w = Inr fi"
  shows "load E c domain w =
     (if now w - mtime fi > 0 then Some (Inl errExpired, Add ''cacheExpired'' w)
      else case fsFault E OpReadFile fname (now w) of
             Some err \<Rightarrow> Some (Inl err, Add ''cacheIOErrors'' (record_event (EvReadFile fname) w))
           | None \<Rightarrow>
               (case json_Unmarshal (json_other E) (data fi) of
                  Inl err \<Rightarrow>
                    Some (Inl err, Add ''cacheUnmarshalErrors'' (record_event (EvReadFile fname) w))
                | Inr p \<Rightarrow>
                    (case Check p of
                       Some err \<Rightarrow>
                         Some (Inl (ErrInvalidCached domain err),
                               Add ''cacheInvalid'' (record_event (EvReadFile fname) w))
                     | None \<Rightarrow> Some (Inr p, record_event (EvReadFile fname) w))))"
  using assms
  by (auto simp: load_def os_Stat_def os_ReadFile_def Let_def
      split: option.splits sum.splits)

section \<open>The cache: paths and expiry\<close>

text \<open>
  C10. For a domain that contains a slash, \<open>domainPath\<close> panics, and with it every
  operation of the cache that builds the path: \<open>load\<close>, \<open>store\<close> and the read-through
  \<open>Fetch\<close>. For a domain with no slash the path is the directory, a slash, \<open>pol:\<close> and
  the domain, and this is the only file that \<open>store\<close> can change.
\<close>

theorem domainPath_pol_prefix:
  "(CHR ''/'' \<in> set domain \<longrightarrow>
      domainPath c domain = None \<and> load E c domain w = None \<and> store E c domain p w = None
      \<and> cache_Fetch E c ctx domain w = None)
   \<and> (CHR ''/'' \<notin> set domain \<longrightarrow>
      domainPath c domain = Some (dir c @ ''/pol:'' @ domain)
      \<and> (\<forall>r w' path. store E c domain p w = Some (r, w') \<and> path \<noteq> dir c @ ''/pol:'' @ domain
            \<longrightarrow> map_of (files w') path = map_of (files w) path))"
proof (intro conjI impI allI)
  assume slash: "CHR ''/'' \<in> set domain"
  then show dp: "domainPath c domain = None"
    by (simp add: domainPath_def)
  show ld: "load E c domain w = None"
    using dp by (simp add: load_def)
  show "store E c domain p w = None"
    using dp by (simp add: store_def json_Marshal_def Let_def)
  have "load E c domain (Add ''cacheFetches'' w) = None"
    using dp by (simp add: load_def)
  then show "cache_Fetch E c ctx domain w = None"
    by (simp add: cache_Fetch_def Let_def)
next
  assume "CHR ''/'' \<notin> set domain"
  then show "domainPath c domain = Some (dir c @ ''/pol:'' @ domain)"
    by (simp add: domainPath_def pathPrefix_def)
next
  fix r w' path
  assume noslash: "CHR ''/'' \<notin> set domain"
    and st: "store E c domain p w = Some (r, w') \<and> path \<noteq> dir c @ ''/pol:'' @ domain"
  from noslash have dp: "domainPath c domain = Some (dir c @ ''/pol:'' @ domain)"
    by (simp add: domainPath_def pathPrefix_def)
  from st store_frame(3) [of E c domain p w r w'] dp
  show "map_of (files w') path = map_of (files w) path"
    by (auto simp: map_of_update_other)
qed

theorem domainPath_pol_prefix_witness:
  "CHR ''/'' \<in> set ''../etc/passwd''
   \<and> load exampleEnv exampleCache ''../etc/passwd'' (worldAt 0 []) = None
   \<and> store exampleEnv exampleCache ''../etc/passwd'' examplePolicy (worldAt 0 []) = None
   \<and> cache_Fetch exampleEnv exampleCache background ''../etc/passwd'' (worldAt 0 []) = None
   \<and> CHR ''/'' \<notin> set ''example.com''
   \<and> domainPath exampleCache ''example.com'' = Some ''/var/sts/pol:example.com''"
  using domainPath_pol_prefix
    [of "''../etc/passwd''" exampleCache exampleEnv "worldAt 0 []" examplePolicy background]
    domainPath_pol_prefix
    [of "''example.com''" exampleCache exampleEnv "worldAt 0 []" examplePolicy background]
  by (simp add: exampleCache_def)

text \<open>
  C3, as the claim states it, fails: an entry whose modification time is the current
  instant is served.
\<close>

theorem load_serves_at_expiry_instant:
  "load exampleEnv exampleCache ''example.com''
     (worldAt 1000
        [(''/var/sts/pol:example.com'',
          \<lparr>data = projr (json_Marshal examplePolicy), mtime = 1000\<rparr>)])
   = Some (Inr examplePolicy,
       record_event (EvReadFile ''/var/sts/pol:example.com'')
        (worldAt 1000
          [(''/var/sts/pol:example.com'',
            \<lparr>data = projr (json_Marshal examplePolicy), mtime = 1000\<rparr>)]))"
proof -
  let ?f = "\<lparr>data = projr (json_Marshal examplePolicy), mtime = 1000\<rparr>"
  let ?w = "worldAt 1000 [(''/var/sts/pol:example.com'', ?f)]"
  have dp: "domainPath exampleCache ''example.com'' = Some ''/var/sts/pol:example.com''"
    by (simp add: domainPath_def exampleCache_def pathPrefix_def)
  have st: "os_Stat exampleEnv ''/var/sts/pol:example.com'' ?w = Inr ?f"
    by (simp add: os_Stat_def exampleEnv_def worldAt_def)
  have dec: "json_Unmarshal (json_other exampleEnv) (projr (json_Marshal examplePolicy))
      = Inr examplePolicy"
    by code_simp
  have chk: "Check examplePolicy = None"
    by code_simp
  have flt: "fsFault exampleEnv OpReadFile ''/var/sts/pol:example.com'' (now ?w) = None"
    by (simp add: exampleEnv_def)
  show ?thesis
    by (simp add: load_unfold [OF dp st] dec chk flt) (simp add: worldAt_def)
qed

text \<open>
  C3, amended. The lookup serves an entry only if its modification time is not in the past
  at the moment of reading (\<open>now \<le> mtime\<close>). Whenever \<open>now - mtime > 0\<close> it returns
  the expired error without reading the body: only the counter of expired entries changes.
  An entry whose modification time is the current instant or later is read, and served
  when its body decodes to a policy that passes the check.
\<close>

theorem load_expiry:
  assumes "domainPath c domain = Some fname" and "os_Stat E fname w = Inr fi"
  shows "(now w - mtime fi > 0 \<longrightarrow>
            load E c domain w = Some (Inl errExpired, Add ''cacheExpired'' w))
     \<and> (\<forall>p w'. load E c domain w = Some (Inr p, w') \<longrightarrow> now w \<le> mtime fi)
     \<and> (now w \<le> mtime fi \<and> fsFault E OpReadFile fname (now w) = None
          \<and> json_Unmarshal (json_other E) (data fi) = Inr p \<and> Check p = None \<longrightarrow>
            load E c domain w = Some (Inr p, record_event (EvReadFile fname) w))"
  by (auto simp: load_unfold [OF assms] split: option.splits sum.splits if_splits)

theorem load_expiry_witness:
  "domainPath exampleCache ''example.com'' = Some ''/var/sts/pol:example.com''
   \<and> os_Stat exampleEnv ''/var/sts/pol:example.com''
        (worldAt 1001
          [(''/var/sts/pol:example.com'',
            \<lparr>data = projr (json_Marshal examplePolicy), mtime = 1000\<rparr>)])
      = Inr \<lparr>data = projr (json_Marshal examplePolicy), mtime = 1000\<rparr>
   \<and> load exampleEnv exampleCache ''example.com''
        (worldAt 1001
          [(''/var/sts/pol:example.com'',
            \<lparr>data = projr (json_Marshal examplePolicy), mtime = 1000\<rparr>)])
      = Some (Inl errExpired,
          Add ''cacheExpired''
            (worldAt 1001
              [(''/var/sts/pol:example.com'',
                \<lparr>data = projr (json_Marshal examplePolicy), mtime = 1000\<rparr>)]))"
proof -
  let ?f = "\<lparr>data = projr (json_Marshal examplePolicy), mtime = 1000\<rparr>"
  let ?w = "worldAt 1001 [(''/var/sts/pol:example.com'', ?f)]"
  have dp: "domainPath exampleCache ''example.com'' = Some ''/var/sts/pol:example.com''"
    by (simp add: domainPath_def exampleCache_def pathPrefix_def)
  have st: "os_Stat exampleEnv ''/var/sts/pol:example.com'' ?w = Inr ?f"
    by (simp add: os_Stat_def exampleEnv_def worldAt_def)
  have late: "now ?w - mtime ?f > 0"
    by (simp add: worldAt_def)
  from load_expiry [OF dp st, of examplePolicy] late dp st show ?thesis
    by simp
qed

section \<open>The HTTP fetcher\<close>

lemma ctxhttp_Get_answered:
  assumes "answered E ctx url w took answer"
  shows "ctxhttp_Get E ctx url w
     = (client_answer answer, advance took (record_event (EvHTTPGet url) w))"
  using assms
  by (auto simp: answered_def ctxhttp_Get_def Let_def split: option.splits)

lemma ctxhttp_Get_Inr:
  assumes "ctxhttp_Get E ctx url w = (Inr resp, w')"
  shows "\<exists>took answer. answered E ctx url w took answer \<and> client_answer answer = Inr resp"
proof -
  obtain took answer where ws: "webServer E url (now w) = (took, answer)"
    by (cases "webServer E url (now w)")
  have alive: "ctx_Err ctx w = None"
    using assms by (auto simp: ctxhttp_Get_def split: option.splits)
  have "answered E ctx url w took answer \<and> client_answer answer = Inr resp"
    using assms ws alive
    by (auto simp: ctxhttp_Get_def answered_def Let_def split: option.splits if_splits)
  then show ?thesis by blast
qed

text \<open>
  C7, as the claim states it, fails. A response of status 200 with the header
  \<open>Content-Type: text/html; charset\<close> has the media type \<open>text/html\<close>, and its
  parameter is malformed: \<open>mime.ParseMediaType\<close> returns the media type with an error,
  and the fetch fails with that error (the "HTTP media type error"), not with
  \<open>ErrInvalidMediaType\<close>.
\<close>

theorem httpGet_malformed_parameter:
  "mime_ParseMediaType (serverOf (Response 200 ''text/html; charset'' exampleBody None))
       ''text/html; charset''
     = (''text/html'', Some ErrInvalidMediaParameter)
   \<and> fst (httpGet (serverOf (Response 200 ''text/html; charset'' exampleBody None))
            background ''https://mta-sts.example.com/.well-known/mta-sts.txt'' (worldAt 0 []))
     = Inl (ErrMediaTypeParse ErrInvalidMediaParameter)"
  by code_simp

text \<open>
  C7, amended. When \<open>httpGet\<close> returns a body, the request was answered by a final
  response of status 200 whose Content-Type is parsed without error to the media type
  \<open>text/plain\<close>, and the body returned is the first 10240 bytes of the response body, or
  all of it when it is shorter. A response of another status fails. A response of status
  200 whose Content-Type the parser rejects (no media type, a malformed parameter) fails
  with the parser's error, whatever its media type; one whose Content-Type is parsed to
  any media type but \<open>text/plain\<close> fails with \<open>ErrInvalidMediaType\<close>. A redirect
  fails with \<open>errRejectRedirect\<close>.
\<close>

theorem httpGet_strict:
  "(\<forall>body w'. httpGet E ctx url w = (Inr body, w') \<longrightarrow>
      (\<exists>took ctype full bodyErr.
         answered E ctx url w took (Response 200 ctype full bodyErr)
         \<and> mime_ParseMediaType E ctype = (''text/plain'', None)
         \<and> body = take 10240 full \<and> length body \<le> 10240))
   \<and> (\<forall>took status ctype full bodyErr.
         answered E ctx url w took (Response status ctype full bodyErr) \<and> status \<noteq> 200 \<longrightarrow>
         fst (httpGet E ctx url w) = Inl (ErrHTTPStatus status))
   \<and> (\<forall>took ctype full bodyErr.
         answered E ctx url w took (Response 200 ctype full bodyErr) \<longrightarrow>
         fst (httpGet E ctx url w) =
           (case mime_ParseMediaType E ctype of
              (mt, Some err) \<Rightarrow> Inl (ErrMediaTypeParse err)
            | (mt, None) \<Rightarrow>
                if mt \<noteq> ''text/plain'' then Inl ErrInvalidMediaType
                else ReadAll_LimitedReader full bodyErr 10240))
   \<and> (\<forall>took status location.
         answered E ctx url w took (Redirect status location) \<longrightarrow>
         fst (httpGet E ctx url w) = Inl errRejectRedirect)"
proof (intro conjI allI impI)
  fix body w'
  assume ok: "httpGet E ctx url w = (Inr body, w')"
  obtain r0 w0 where g: "ctxhttp_Get E ctx url w = (r0, w0)"
    by (cases "ctxhttp_Get E ctx url w")
  from ok g obtain status ctype full bodyErr where r0: "r0 = Inr (status, ctype, full, bodyErr)"
    by (cases r0) (auto simp: httpGet_def)
  from ctxhttp_Get_Inr [OF g [unfolded r0] ] obtain took answer
    where ans: "answered E ctx url w took answer"
      and ca: "client_answer answer = Inr (status, ctype, full, bodyErr)"
    by blast
  from ca have answer: "answer = Response status ctype full bodyErr"
    by (cases answer) (auto simp: client_answer_def)
  from ok g r0 have st: "status = 200"
    by (auto simp: httpGet_def split: if_splits)
  from ok g r0 st have mt: "mime_ParseMediaType E ctype = (''text/plain'', None)"
    by (auto simp: httpGet_def split: if_splits prod.splits option.splits)
  from ok g r0 st mt have rd: "ReadAll_LimitedReader full bodyErr (10 * 1024) = Inr body"
    by (auto simp: httpGet_def)
  then have "body = take 10240 full \<and> length body \<le> 10240"
    by (auto simp: ReadAll_LimitedReader_def split: if_splits option.splits)
  with ans answer st mt
  show "\<exists>took ctype full bodyErr.
         answered E ctx url w took (Response 200 ctype full bodyErr)
         \<and> mime_ParseMediaType E ctype = (''text/plain'', None)
         \<and> body = take 10240 full \<and> length body \<le> 10240"
    by blast
next
  fix took status ctype full bodyErr
  assume a: "answered E ctx url w took (Response status ctype full bodyErr) \<and> status \<noteq> 200"
  then show "fst (httpGet E ctx url w) = Inl (ErrHTTPStatus status)"
    using ctxhttp_Get_answered [of E ctx url w took "Response status ctype full bodyErr"]
    by (simp add: httpGet_def client_answer_def)
next
  fix took ctype full bodyErr
  assume "answered E ctx url w took (Response 200 ctype full bodyErr)"
  then show "fst (httpGet E ctx url w) =
           (case mime_ParseMediaType E ctype of
              (mt, Some err) \<Rightarrow> Inl (ErrMediaTypeParse err)
            | (mt, None) \<Rightarrow>
                if mt \<noteq> ''text/plain'' then Inl ErrInvalidMediaType
                else ReadAll_LimitedReader full bodyErr 10240)"
    using ctxhttp_Get_answered [of E ctx url w took "Response 200 ctype full bodyErr"]
    by (simp add: httpGet_def client_answer_def split: prod.splits option.splits)
next
  fix took status location
  assume "answered E ctx url w took (Redirect status location)"
  then show "fst (httpGet E ctx url w) = Inl errRejectRedirect"
    using ctxhttp_Get_answered [of E ctx url w took "Redirect status location"]
    by (simp add: httpGet_def client_answer_def rejectRedirect_def)
qed

theorem httpGet_strict_witness:
  "answered exampleEnv background ''https://mta-sts.example.com/.well-known/mta-sts.txt''
     (worldAt 0 []) 7 (Response 200 ''text/plain; charset=utf-8'' exampleBody None)
   \<and> fst (httpGet exampleEnv background ''https://mta-sts.example.com/.well-known/mta-sts.txt''
          (worldAt 0 [])) = Inr exampleBody
   \<and> answered (serverOf (Response 200 ''Text/HTML'' exampleBody None))
        background ''u'' (worldAt 0 []) 7 (Response 200 ''Text/HTML'' exampleBody None)
   \<and> fst (httpGet (serverOf (Response 200 ''Text/HTML'' exampleBody None))
          background ''u'' (worldAt 0 [])) = Inl ErrInvalidMediaType
   \<and> answered (serverOf (Response 200 ''text/plain; charset'' exampleBody None))
        background ''u'' (worldAt 0 []) 7 (Response 200 ''text/plain; charset'' exampleBody None)
   \<and> fst (httpGet (serverOf (Response 200 ''text/plain; charset'' exampleBody None))
          background ''u'' (worldAt 0 [])) = Inl (ErrMediaTypeParse ErrInvalidMediaParameter)
   \<and> answered (serverOf (Response 404 ''text/plain'' exampleBody None))
        background ''u'' (worldAt 0 []) 7 (Response 404 ''text/plain'' exampleBody None)
   \<and> fst (httpGet (serverOf (Response 404 ''text/plain'' exampleBody None))
          background ''u'' (worldAt 0 [])) = Inl (ErrHTTPStatus 404)
   \<and> answered (serverOf (Redirect 301 ''https://example.org/''))
        background ''u'' (worldAt 0 []) 7 (Redirect 301 ''https://example.org/'')
   \<and> fst (httpGet (serverOf (Redirect 301 ''https://example.org/''))
          background ''u'' (worldAt 0 [])) = Inl errRejectRedirect
   \<and> fst (httpGet (serverOf (Response 200 ''text/plain'' (replicate 20480 (CHR ''x'')) None))
          background ''u'' (worldAt 0 [])) = Inr (replicate 10240 (CHR ''x''))"
proof -
  let ?url = "''https://mta-sts.example.com/.well-known/mta-sts.txt''"
  let ?w = "worldAt 0 []"
  note alive = answered_def ctx_Err_def doneAt_def background_def worldAt_def
  have a1: "answered exampleEnv background ?url ?w 7
      (Response 200 ''text/plain; charset=utf-8'' exampleBody None)"
    by (simp add: alive exampleEnv_def)
  have a: "answered (serverOf r) background ''u'' ?w 7 r" for r
    by (simp add: alive serverOf_def)
  have m: "mime_ParseMediaType (serverOf r) = exampleParseMediaType"
    "mime_ParseMediaType exampleEnv = exampleParseMediaType" for r
    by (simp_all add: serverOf_def exampleEnv_def asciiLibs_def)
  have p1: "exampleParseMediaType ''text/plain; charset=utf-8'' = (''text/plain'', None)"
    and p2: "exampleParseMediaType ''Text/HTML'' = (''text/html'', None)"
    and p3: "exampleParseMediaType ''text/plain; charset'' = (''text/plain'', Some ErrInvalidMediaParameter)"
    and p4: "exampleParseMediaType ''text/plain'' = (''text/plain'', None)"
    by code_simp+
  have short: "length exampleBody < 10240"
    by (simp add: exampleBody_def)
  from httpGet_strict [of exampleEnv background ?url ?w,
      THEN conjunct2, THEN conjunct2, THEN conjunct1, rule_format,
      of 7 "''text/plain; charset=utf-8''" exampleBody None] a1 short
  have g1: "fst (httpGet exampleEnv background ?url ?w) = Inr exampleBody"
    by (simp add: m p1 ReadAll_LimitedReader_def)
  from httpGet_strict [of "serverOf (Response 200 ''Text/HTML'' exampleBody None)" background
      "''u''" ?w, THEN conjunct2, THEN conjunct2, THEN conjunct1, rule_format,
      of 7 "''Text/HTML''" exampleBody None]
    a [of "Response 200 ''Text/HTML'' exampleBody None"]
  have g2: "fst (httpGet (serverOf (Response 200 ''Text/HTML'' exampleBody None)) background ''u'' ?w)
      = Inl ErrInvalidMediaType"
    by (simp add: m p2)
  from httpGet_strict [of "serverOf (Response 200 ''text/plain; charset'' exampleBody None)"
      background "''u''" ?w, THEN conjunct2, THEN conjunct2, THEN conjunct1, rule_format,
      of 7 "''text/plain; charset''" exampleBody None]
    a [of "Response 200 ''text/plain; charset'' exampleBody None"]
  have g3: "fst (httpGet (serverOf (Response 200 ''text/plain; charset'' exampleBody None))
        background ''u'' ?w) = Inl (ErrMediaTypeParse ErrInvalidMediaParameter)"
    by (simp add: m p3)
  from httpGet_strict [of "serverOf (Response 404 ''text/plain'' exampleBody None)" background
      "''u''" ?w, THEN conjunct2, THEN conjunct1, rule_format,
      of 7 404 "''text/plain''" exampleBody None]
    a [of "Response 404 ''text/plain'' exampleBody None"]
  have g4: "fst (httpGet (serverOf (Response 404 ''text/plain'' exampleBody None)) background ''u'' ?w)
      = Inl (ErrHTTPStatus 404)"
    by simp
  from httpGet_strict [of "serverOf (Redirect 301 ''https://example.org/'')" background "''u''" ?w,
      THEN conjunct2, THEN conjunct2, THEN conjunct2, rule_format,
      of 7 301 "''https://example.org/''"]
    a [of "Redirect 301 ''https://example.org/''"]
  have g5: "fst (httpGet (serverOf (Redirect 301 ''https://example.org/'')) background ''u'' ?w)
      = Inl errRejectRedirect"
    by simp
  from httpGet_strict
    [of "serverOf (Response 200 ''text/plain'' (replicate 20480 (CHR ''x'')) None)" background
      "''u''" ?w, THEN conjunct2, THEN conjunct2, THEN conjunct1, rule_format,
      of 7 "''text/plain''" "replicate 20480 (CHR ''x'')" None]
    a [of "Response 200 ''text/plain'' (replicate 20480 (CHR ''x'')) None"]
  have g6: "fst (httpGet (serverOf (Response 200 ''text/plain'' (replicate 20480 (CHR ''x'')) None))
        background ''u'' ?w) = Inr (replicate 10240 (CHR ''x''))"
    by (simp add: m p4 ReadAll_LimitedReader_def)
  from a1 g1 a g2 g3 g4 g5 g6 show ?thesis
    by simp
qed

section \<open>The read-through fetch of the cache\<close>

text \<open>
  C1. The read-through \<open>Fetch\<close> first looks the domain up on disk. When the lookup
  returns a policy, that policy is returned, and the log has no new DNS lookup, HTTP
  request or entry into the fetch pipeline. When the lookup returns an error, whichever it
  is, the fetch pipeline is entered once, under the caller's context: its error is the
  error returned, and its policy is the policy returned, whatever the store that follows
  returns.
\<close>

theorem cache_Fetch_read_through:
  assumes "load E c domain (Add ''cacheFetches'' w) = Some (r, w1)"
  shows "(\<forall>p. r = Inr p \<longrightarrow>
            cache_Fetch E c ctx domain w = Some (Inr p, Add ''cacheHits'' w1)
            \<and> networkEvents (Add ''cacheHits'' w1) = networkEvents w
            \<and> fetchCalls (Add ''cacheHits'' w1) = fetchCalls w)
     \<and> (\<forall>e. r = Inl e \<longrightarrow>
            (\<forall>r2 w2. Fetch E ctx domain w1 = (r2, w2) \<longrightarrow>
               fetchCalls w2 = fetchCalls w @ [(now w, domain, ctx)])
            \<and> (\<forall>e' w2. Fetch E ctx domain w1 = (Inl e', w2) \<longrightarrow>
                 cache_Fetch E c ctx domain w = Some (Inl e', Add ''cacheFailedFetch'' w2))
            \<and> (\<forall>p w2. Fetch E ctx domain w1 = (Inr p, w2) \<longrightarrow>
                 (\<exists>stored w3. store E c domain p w2 = Some (stored, w3)
                    \<and> cache_Fetch E c ctx domain w = Some (Inr p, w3))))"
proof (intro conjI allI impI)
  fix p assume "r = Inr p"
  with assms show "cache_Fetch E c ctx domain w = Some (Inr p, Add ''cacheHits'' w1)"
    by (simp add: cache_Fetch_def Let_def)
  from load_frame(4,5) [OF assms]
  show "networkEvents (Add ''cacheHits'' w1) = networkEvents w"
    and "fetchCalls (Add ''cacheHits'' w1) = fetchCalls w"
    by simp_all
next
  fix e r2 w2 assume "r = Inl e" and f: "Fetch E ctx domain w1 = (r2, w2)"
  from Fetch_fetchCalls [OF f] load_frame(1,5) [OF assms]
  show "fetchCalls w2 = fetchCalls w @ [(now w, domain, ctx)]"
    by simp
next
  fix e e' w2 assume "r = Inl e" and "Fetch E ctx domain w1 = (Inl e', w2)"
  with assms show "cache_Fetch E c ctx domain w = Some (Inl e', Add ''cacheFailedFetch'' w2)"
    by (simp add: cache_Fetch_def Let_def)
next
  fix e p w2 assume r: "r = Inl e" and f: "Fetch E ctx domain w1 = (Inr p, w2)"
  from load_frame(3) [OF assms] store_no_panic [of domain E c p w2]
  obtain stored w3 where st: "store E c domain p w2 = Some (stored, w3)"
    by blast
  with assms r f have "cache_Fetch E c ctx domain w = Some (Inr p, w3)"
    by (simp add: cache_Fetch_def Let_def)
  with st show "\<exists>stored w3. store E c domain p w2 = Some (stored, w3)
                    \<and> cache_Fetch E c ctx domain w = Some (Inr p, w3)"
    by blast
qed

theorem cache_Fetch_read_through_witness:
  "load (exampleEnv\<lparr>fsFault := \<lambda>operation fname t.
                        if operation = OpWriteFile then Some (ErrIO ''disk full'') else None\<rparr>)
      exampleCache ''example.com'' (Add ''cacheFetches'' (worldAt 0 []))
     = Some (Inl ErrNotExist, Add ''cacheFetches'' (worldAt 0 []))
   \<and> fst (Fetch (exampleEnv\<lparr>fsFault := \<lambda>operation fname t.
                        if operation = OpWriteFile then Some (ErrIO ''disk full'') else None\<rparr>)
            background ''example.com'' (Add ''cacheFetches'' (worldAt 0 [])))
     = Inr examplePolicy
   \<and> (\<forall>w2. map_option fst
          (store (exampleEnv\<lparr>fsFault := \<lambda>operation fname t.
                        if operation = OpWriteFile then Some (ErrIO ''disk full'') else None\<rparr>)
             exampleCache ''example.com'' examplePolicy w2)
        = Some (Some (ErrIO ''disk full'')))
   \<and> map_option fst
        (cache_Fetch (exampleEnv\<lparr>fsFault := \<lambda>operation fname t.
                        if operation = OpWriteFile then Some (ErrIO ''disk full'') else None\<rparr>)
           exampleCache background ''example.com'' (worldAt 0 []))
     = Some (Inr examplePolicy)"
proof -
  let ?E = "exampleEnv\<lparr>fsFault := \<lambda>operation fname t.
                        if operation = OpWriteFile then Some (ErrIO ''disk full'') else None\<rparr>"
  let ?w = "Add ''cacheFetches'' (worldAt 0 [])"
  have ld: "load ?E exampleCache ''example.com'' ?w = Some (Inl ErrNotExist, ?w)"
    by (simp add: load_def domainPath_def os_Stat_def worldAt_def)
  have up: "fst (Fetch ?E background ''example.com'' ?w) = Inr examplePolicy"
    by code_simp
  then obtain w2 where f: "Fetch ?E background ''example.com'' ?w = (Inr examplePolicy, w2)"
    by (cases "Fetch ?E background ''example.com'' ?w") auto
  have st: "\<forall>w2. map_option fst (store ?E exampleCache ''example.com'' examplePolicy w2)
      = Some (Some (ErrIO ''disk full''))"
    by (simp add: store_def json_Marshal_def domainPath_def safeio_WriteFile_def Let_def)
  from cache_Fetch_read_through [OF ld, of background] f
  have "map_option fst (cache_Fetch ?E exampleCache background ''example.com'' (worldAt 0 []))
      = Some (Inr examplePolicy)"
    by auto
  with ld up st show ?thesis
    by simp
qed

section \<open>A refresh pass\<close>

lemma os_ReadDir_names:
  assumes "os_ReadDir E d w = Inr entries"
  shows "distinct entries" and "\<forall>name \<in> set entries. CHR ''/'' \<notin> set name"
  using assms by (auto simp: os_ReadDir_def split: option.splits)

lemma pol_name:
  assumes "prefix pathPrefix name"
  shows "pathPrefix @ drop (length pathPrefix) name = name"
  using assms by (auto simp: prefix_def)

lemma domainPath_entry:
  assumes "prefix pathPrefix name" and "CHR ''/'' \<notin> set name"
  shows "domainPath c (drop (length pathPrefix) name) = Some (dir c @ ''/'' @ name)"
proof -
  have "CHR ''/'' \<notin> set (drop (length pathPrefix) name)"
    using assms(2) by (auto dest: in_set_dropD)
  then show ?thesis
    using pol_name [OF assms(1)] by (simp add: domainPath_def)
qed

lemma map_of_update_defined:
  "map_of fs path \<noteq> None \<Longrightarrow> map_of (AList.update fname f fs) path \<noteq> None"
  by (simp add: update_conv')

text \<open>One entry of the directory, whose name has no slash.\<close>

lemma refreshEntry_step:
  assumes "CHR ''/'' \<notin> set name"
  shows "\<exists>w'. refreshEntry E c ctx name w = Some w'
     \<and> fetchCalls w' = fetchCalls w
         @ (if prefix pathPrefix name
            then [(now w, drop (length pathPrefix) name, WithTimeout ctx (30 * Second) (now w))]
            else [])
     \<and> now w \<le> now w'
     \<and> (\<forall>path. path \<noteq> dir c @ ''/'' @ name \<longrightarrow> map_of (files w') path = map_of (files w) path)
     \<and> (\<forall>path. map_of (files w) path \<noteq> None \<longrightarrow> map_of (files w') path \<noteq> None)
     \<and> (\<forall>err w2. prefix pathPrefix name
           \<and> Fetch E (WithTimeout ctx (30 * Second) (now w)) (drop (length pathPrefix) name)
                (Add ''cacheRefreshes'' w) = (Inl err, w2)
           \<longrightarrow> w' = Add ''cacheRefreshErrors'' w2 \<and> files w' = files w)"
proof (cases "prefix pathPrefix name")
  case False
  then show ?thesis by (simp add: refreshEntry_def)
next
  case True
  let ?domain = "drop (length pathPrefix) name"
  let ?ctx = "WithTimeout ctx (30 * Second) (now w)"
  let ?w0 = "Add ''cacheRefreshes'' w"
  obtain r w2 where f: "Fetch E ?ctx ?domain ?w0 = (r, w2)"
    by (cases "Fetch E ?ctx ?domain ?w0")
  note fr = Fetch_frame(1,2) [OF f] Fetch_fetchCalls [OF f]
  show ?thesis
  proof (cases r)
    case (Inl err)
    with True f have "refreshEntry E c ctx name w = Some (Add ''cacheRefreshErrors'' w2)"
      by (simp add: refreshEntry_def Let_def)
    with fr True f Inl show ?thesis by simp
  next
    case (Inr p)
    have dp: "domainPath c ?domain = Some (dir c @ ''/'' @ name)"
      by (rule domainPath_entry [OF True assms])
    have "CHR ''/'' \<notin> set ?domain"
      using assms by (auto dest: in_set_dropD)
    from store_no_panic [OF this, of E c p w2]
    obtain stored w3 where st: "store E c ?domain p w2 = Some (stored, w3)"
      by blast
    from True f Inr st have re: "refreshEntry E c ctx name w = Some w3"
      by (simp add: refreshEntry_def Let_def)
    note sf = store_frame [OF st]
    from sf(3) dp
    have files3: "files w3 = files w2
        \<or> (\<exists>f. files w3 = AList.update (dir c @ ''/'' @ name) f (files w2))"
      by auto
    have calls: "fetchCalls w3 = fetchCalls w @ [(now w, ?domain, ?ctx)]"
      using fr(3) sf(2) by (simp add: fetchCalls_def)
    have other: "\<forall>path. path \<noteq> dir c @ ''/'' @ name
        \<longrightarrow> map_of (files w3) path = map_of (files w) path"
      using files3 fr(1) by (auto simp: map_of_update_other)
    have kept: "\<forall>path. map_of (files w) path \<noteq> None \<longrightarrow> map_of (files w3) path \<noteq> None"
      using files3 fr(1) by (auto simp: update_conv')
    from re calls other kept fr(2) sf(1) True f Inr show ?thesis
      by simp
  qed
qed


lemma refreshEntries_pass:
  assumes "\<forall>name \<in> set names. CHR ''/'' \<notin> set name"
  shows "\<exists>w' calls. refreshEntries E c ctx names w = Some w'
     \<and> fetchCalls w' = fetchCalls w @ calls
     \<and> map (\<lambda>(t, domain, fctx). domain) calls
         = map (drop (length pathPrefix)) (filter (prefix pathPrefix) names)
     \<and> (\<forall>(t, domain, fctx) \<in> set calls. fctx = WithTimeout ctx (30 * Second) t)
     \<and> now w \<le> now w'
     \<and> (\<forall>path. path \<notin> (\<lambda>name. dir c @ ''/'' @ name) ` set names
           \<longrightarrow> map_of (files w') path = map_of (files w) path)
     \<and> (\<forall>path. map_of (files w) path \<noteq> None \<longrightarrow> map_of (files w') path \<noteq> None)"
  using assms
proof (induction names arbitrary: w)
  case Nil
  show ?case by simp
next
  case (Cons name names)
  from Cons.prems have ns: "CHR ''/'' \<notin> set name" by simp
  from refreshEntry_step [OF ns, of E c ctx w] obtain w1
    where s1: "refreshEntry E c ctx name w = Some w1"
      and c1: "fetchCalls w1 = fetchCalls w
         @ (if prefix pathPrefix name
            then [(now w, drop (length pathPrefix) name, WithTimeout ctx (30 * Second) (now w))]
            else [])"
      and t1: "now w \<le> now w1"
      and o1: "\<forall>path. path \<noteq> dir c @ ''/'' @ name
                 \<longrightarrow> map_of (files w1) path = map_of (files w) path"
      and k1: "\<forall>path. map_of (files w) path \<noteq> None \<longrightarrow> map_of (files w1) path \<noteq> None"
    by blast
  from Cons.prems have "\<forall>name \<in> set names. CHR ''/'' \<notin> set name" by simp
  from Cons.IH [OF this, of w1] obtain w' calls
    where s2: "refreshEntries E c ctx names w1 = Some w'"
      and c2: "fetchCalls w' = fetchCalls w1 @ calls"
      and d2: "map (\<lambda>(t, domain, fctx). domain) calls
         = map (drop (length pathPrefix)) (filter (prefix pathPrefix) names)"
      and x2: "\<forall>(t, domain, fctx) \<in> set calls. fctx = WithTimeout ctx (30 * Second) t"
      and t2: "now w1 \<le> now w'"
      and o2: "\<forall>path. path \<notin> (\<lambda>name. dir c @ ''/'' @ name) ` set names
                 \<longrightarrow> map_of (files w') path = map_of (files w1) path"
      and k2: "\<forall>path. map_of (files w1) path \<noteq> None \<longrightarrow> map_of (files w') path \<noteq> None"
    by blast
  let ?first = "if prefix pathPrefix name
            then [(now w, drop (length pathPrefix) name, WithTimeout ctx (30 * Second) (now w))]
            else []"
  have "refreshEntries E c ctx (name # names) w = Some w'"
    using s1 s2 by simp
  moreover have "fetchCalls w' = fetchCalls w @ (?first @ calls)"
    using c1 c2 by simp
  moreover have "map (\<lambda>(t, domain, fctx). domain) (?first @ calls)
         = map (drop (length pathPrefix)) (filter (prefix pathPrefix) (name # names))"
    using d2 by simp
  moreover have "\<forall>(t, domain, fctx) \<in> set (?first @ calls). fctx = WithTimeout ctx (30 * Second) t"
    using x2 by auto
  moreover have "now w \<le> now w'"
    using t1 t2 by simp
  moreover have "\<forall>path. path \<notin> (\<lambda>name. dir c @ ''/'' @ name) ` set (name # names)
           \<longrightarrow> map_of (files w') path = map_of (files w) path"
    using o1 o2 by auto
  moreover have "\<forall>path. map_of (files w) path \<noteq> None \<longrightarrow> map_of (files w') path \<noteq> None"
    using k1 k2 by auto
  ultimately show ?case by blast
qed



section \<open>The refresher and its context\<close>

lemma refresh_returns:
  "\<exists>w'. refresh E c ctx w = Some w' \<and> now w \<le> now w'"
proof (cases "os_ReadDir E (dir c) w")
  case (Inl err)
  then show ?thesis by (simp add: refresh_def)
next
  case (Inr entries)
  from refreshEntries_pass [OF os_ReadDir_names(2) [OF Inr], of E c ctx w] Inr
  show ?thesis
    by (auto simp: refresh_def)
qed

lemma doneAt_cancel:
  assumes "cancelAt ctx = Some T" and "ctx_Err ctx w = None"
  shows "now w < T"
  using assms
  by (auto simp: ctx_Err_def doneAt_def split: option.splits if_splits)

lemma PeriodicallyRefresh_done:
  "ctx_Err ctx w \<noteq> None \<Longrightarrow> PeriodicallyRefresh E c ctx w = Some (Some w)"
  by (subst PeriodicallyRefresh.simps) auto

lemma PeriodicallyRefresh_pass:
  assumes "ctx_Err ctx w = None" and "refresh E c ctx w = Some w1"
  shows "PeriodicallyRefresh E c ctx w
     = PeriodicallyRefresh E c ctx (time_Sleep (10 * Minute) (Add ''cacheRefreshCycles'' w1))"
  using assms by (subst PeriodicallyRefresh.simps) simp

lemma time_Sleep_now:
  "now (time_Sleep (10 * Minute) w) = now w + 600000000000"
  by (simp add: time_Sleep_def Minute_def Second_def)

lemma lateRequests_fields [simp]:
  "lateRequests T (Add name w) = lateRequests T w"
  "lateRequests T (advance d w) = lateRequests T w"
  "lateRequests T (time_Sleep dur w) = lateRequests T w"
  by (simp_all add: lateRequests_def time_Sleep_def)

lemma ctxhttp_Get_late:
  assumes "cancelAt ctx = Some T" and "ctxhttp_Get E ctx url w = (r, w')"
  shows "lateRequests T w' = lateRequests T w"
proof (cases "ctx_Err ctx w")
  case (Some err)
  with assms(2) show ?thesis
    by (simp add: ctxhttp_Get_def)
next
  case None
  from doneAt_cancel [OF assms(1) None] have "now w < T" .
  moreover from assms(2) None
  have "log w' = log w @ [(now w, EvHTTPGet url)]"
    by (auto simp: ctxhttp_Get_def Let_def split: prod.splits option.splits if_splits)
  ultimately show ?thesis
    by (simp add: lateRequests_def)
qed

lemma ctxhttp_Get_canceled:
  assumes "cancelAt ctx = Some T" and "T \<le> now w"
  shows "\<exists>err. ctxhttp_Get E ctx url w = (Inl err, w)"
proof -
  have "ctx_Err ctx w \<noteq> None"
    using assms by (auto simp: ctx_Err_def doneAt_def split: option.splits)
  then show ?thesis
    by (auto simp: ctxhttp_Get_def)
qed

lemma httpGet_late:
  assumes "cancelAt ctx = Some T" and "httpGet E ctx url w = (r, w')"
  shows "lateRequests T w' = lateRequests T w"
proof -
  obtain r0 w0 where g: "ctxhttp_Get E ctx url w = (r0, w0)"
    by (cases "ctxhttp_Get E ctx url w")
  have "w' = w0"
    using assms(2) g
    by (auto simp: httpGet_def split: prod.splits sum.splits option.splits if_splits)
  with ctxhttp_Get_late [OF assms(1) g] show ?thesis
    by simp
qed

lemma hasSTSRecord_late:
  assumes "hasSTSRecord E domain w = (r, w')"
  shows "lateRequests T w' = lateRequests T w"
  using hasSTSRecord_frame(4) [OF assms]
  by (auto simp: lateRequests_def)

text \<open>
  Under a context canceled at \<open>T\<close>, the pipeline sends no HTTP request at \<open>T\<close> or
  later, and an entry into the pipeline made at \<open>T\<close> or later ends in an error.
\<close>

lemma Fetch_late:
  assumes "cancelAt ctx = Some T" and "Fetch E ctx domain w = (r, w')"
  shows "lateRequests T w' = lateRequests T w"
    and "T \<le> now w \<Longrightarrow> \<exists>err. r = Inl err"
proof -
  let ?w0 = "record_event (EvFetch domain ctx) w"
  obtain r0 w0 where u: "UncheckedFetch E ctx domain ?w0 = (r0, w0)"
    by (cases "UncheckedFetch E ctx domain ?w0")
  have w': "w' = w0" and r: "r0 = Inl err \<Longrightarrow> r = Inl err" for err
    using assms(2) u by (auto simp: Fetch_def split: sum.splits option.splits)
  have start: "lateRequests T ?w0 = lateRequests T w"
    by (simp add: lateRequests_def)
  have "lateRequests T w0 = lateRequests T ?w0 \<and> (T \<le> now w \<longrightarrow> (\<exists>err. r0 = Inl err))"
  proof (cases "idna_ToASCII E domain")
    case (Inl e)
    with u show ?thesis by (auto simp: UncheckedFetch_def)
  next
    case (Inr d)
    obtain r1 w1 where h: "hasSTSRecord E d ?w0 = (r1, w1)"
      by (cases "hasSTSRecord E d ?w0")
    note l1 = hasSTSRecord_late [OF h, of T]
    from hasSTSRecord_frame(2) [OF h] have t1: "now w \<le> now w1" by simp
    show ?thesis
    proof (cases "r1 = Inr True")
      case False
      then have "w0 = w1 \<and> (\<exists>err. r0 = Inl err)"
        using u Inr h by (auto simp: UncheckedFetch_def split: sum.splits if_splits)
      with l1 show ?thesis by auto
    next
      case True
      obtain r2 w2 where g: "httpGet E ctx (urlForDomain E d) w1 = (r2, w2)"
        by (cases "httpGet E ctx (urlForDomain E d) w1")
      have res: "w0 = w2" "r2 = Inl err \<Longrightarrow> r0 = Inl err" for err
        using u Inr h True g by (auto simp: UncheckedFetch_def Let_def split: sum.splits)
      have "\<exists>err. r2 = Inl err" if "T \<le> now w"
      proof -
        from that t1 have "T \<le> now w1" by simp
        from ctxhttp_Get_canceled [OF assms(1) this, of E "urlForDomain E d"] g
        show ?thesis
          by (auto simp: httpGet_def)
      qed
      with res httpGet_late [OF assms(1) g] l1 show ?thesis
        by auto
    qed
  qed
  with w' r start show "lateRequests T w' = lateRequests T w"
    and "T \<le> now w \<Longrightarrow> \<exists>err. r = Inl err"
    by auto
qed

lemma store_late:
  assumes "store E c domain p w = Some (r, w')"
  shows "lateRequests T w' = lateRequests T w"
  using store_frame(2) [OF assms] by (simp add: lateRequests_def)

lemma WithTimeout_cancelAt [simp]: "cancelAt (WithTimeout ctx d t) = cancelAt ctx"
  by (simp add: WithTimeout_def)

lemma refreshEntry_late:
  assumes "cancelAt ctx = Some T" and "refreshEntry E c ctx name w = Some w'"
  shows "lateRequests T w' = lateRequests T w"
proof (cases "prefix pathPrefix name")
  case False
  with assms(2) show ?thesis by (simp add: refreshEntry_def)
next
  case True
  let ?domain = "drop (length pathPrefix) name"
  let ?ctx = "WithTimeout ctx (30 * Second) (now w)"
  let ?w0 = "Add ''cacheRefreshes'' w"
  obtain r w2 where f: "Fetch E ?ctx ?domain ?w0 = (r, w2)"
    by (cases "Fetch E ?ctx ?domain ?w0")
  have c: "cancelAt ?ctx = Some T"
    using assms(1) by simp
  from Fetch_late(1) [OF c f] have l2: "lateRequests T w2 = lateRequests T w"
    by simp
  show ?thesis
  proof (cases r)
    case (Inl err)
    with True f assms(2) have "w' = Add ''cacheRefreshErrors'' w2"
      by (simp add: refreshEntry_def Let_def)
    with l2 show ?thesis by simp
  next
    case (Inr p)
    with True f assms(2) obtain stored where "store E c ?domain p w2 = Some (stored, w')"
      by (auto simp: refreshEntry_def Let_def split: option.splits)
    from store_late [OF this, of T] l2 show ?thesis by simp
  qed
qed

lemma refreshEntries_late:
  assumes "cancelAt ctx = Some T" and "refreshEntries E c ctx names w = Some w'"
  shows "lateRequests T w' = lateRequests T w"
  using assms(2)
proof (induction names arbitrary: w)
  case Nil
  then show ?case by simp
next
  case (Cons name names)
  then obtain w1 where s1: "refreshEntry E c ctx name w = Some w1"
    and s2: "refreshEntries E c ctx names w1 = Some w'"
    by (auto split: option.splits)
  from Cons.IH [OF s2] refreshEntry_late [OF assms(1) s1] show ?case
    by simp
qed

text \<open>
  C2, as the claim states it, fails. The directory holds the entries of \<open>example.com\<close> and
  \<open>other.example\<close>; the refresher starts at the instant 100 and its context is canceled at
  102, while the first entry is being fetched (its TXT lookup ends at 105). The refresher
  still enters the pipeline for the second entry, at 105, and returns only after the sleep
  of ten minutes, at the instant 600000000110.
\<close>

theorem PeriodicallyRefresh_late_exit:
  "map_option (map_option fetchCalls)
     (PeriodicallyRefresh exampleEnv exampleCache \<lparr>cancelAt = Some 102, deadline = None\<rparr>
        (worldAt 100
           [(''/var/sts/pol:other.example'',
             \<lparr>data = projr (json_Marshal examplePolicy), mtime = 5000\<rparr>),
            (''/var/sts/pol:example.com'',
             \<lparr>data = projr (json_Marshal examplePolicy), mtime = 1\<rparr>)]))
   = Some (Some
       [(100, ''example.com'', \<lparr>cancelAt = Some 102, deadline = Some 30000000100\<rparr>),
        (105, ''other.example'', \<lparr>cancelAt = Some 102, deadline = Some 30000000105\<rparr>)])
   \<and> map_option (map_option now)
     (PeriodicallyRefresh exampleEnv exampleCache \<lparr>cancelAt = Some 102, deadline = None\<rparr>
        (worldAt 100
           [(''/var/sts/pol:other.example'',
             \<lparr>data = projr (json_Marshal examplePolicy), mtime = 5000\<rparr>),
            (''/var/sts/pol:example.com'',
             \<lparr>data = projr (json_Marshal examplePolicy), mtime = 1\<rparr>)]))
   = Some (Some 600000000110)"
proof -
  let ?ctx = "\<lparr>cancelAt = Some 102, deadline = None\<rparr>"
  let ?w = "worldAt 100
           [(''/var/sts/pol:other.example'',
             \<lparr>data = projr (json_Marshal examplePolicy), mtime = 5000\<rparr>),
            (''/var/sts/pol:example.com'',
             \<lparr>data = projr (json_Marshal examplePolicy), mtime = 1\<rparr>)]"
  have alive: "ctx_Err ?ctx ?w = None"
    by (simp add: ctx_Err_def doneAt_def worldAt_def)
  have pass: "map_option (\<lambda>w'. (fetchCalls w', now w')) (refresh exampleEnv exampleCache ?ctx ?w)
      = Some ([(100, ''example.com'', \<lparr>cancelAt = Some 102, deadline = Some 30000000100\<rparr>),
               (105, ''other.example'', \<lparr>cancelAt = Some 102, deadline = Some 30000000105\<rparr>)],
              110)"
    by code_simp
  then obtain w1 where r: "refresh exampleEnv exampleCache ?ctx ?w = Some w1"
    and calls: "fetchCalls w1
      = [(100, ''example.com'', \<lparr>cancelAt = Some 102, deadline = Some 30000000100\<rparr>),
         (105, ''other.example'', \<lparr>cancelAt = Some 102, deadline = Some 30000000105\<rparr>)]"
    and t: "now w1 = 110"
    by auto
  let ?w2 = "time_Sleep (10 * Minute) (Add ''cacheRefreshCycles'' w1)"
  have t2: "now ?w2 = 600000000110"
    using t by (simp add: time_Sleep_now)
  have c2: "fetchCalls ?w2 = fetchCalls w1"
    by (simp add: time_Sleep_def fetchCalls_def Minute_def Second_def)
  have "ctx_Err ?ctx ?w2 \<noteq> None"
    using t2 by (simp add: ctx_Err_def doneAt_def)
  then have "PeriodicallyRefresh exampleEnv exampleCache ?ctx ?w = Some (Some ?w2)"
    by (simp add: PeriodicallyRefresh_pass [OF alive r] PeriodicallyRefresh_done)
  with t2 c2 calls show ?thesis
    by simp
qed

text \<open>
  C2, amended. Once the root context is canceled, at \<open>T\<close>, the refresher terminates,
  without a panic, in a world in which the context is done; but it leaves its loop only
  where the loop tests the context. A pass begun before \<open>T\<close> is carried through: the
  pipeline is entered for every \<open>pol:\<close> entry of the listing, those that follow the
  cancellation too. Such an entry, made at \<open>T\<close> or later, ends in an error, and no HTTP
  request is sent at \<open>T\<close> or later. The sleep of ten minutes that follows the pass is
  slept in full, and when \<open>T\<close> has come by then, the refresher returns there, with no
  further pass.
\<close>

theorem PeriodicallyRefresh_exits:
  assumes "cancelAt ctx = Some T"
  shows "(\<exists>w'. PeriodicallyRefresh E c ctx w = Some (Some w') \<and> ctx_Err ctx w' \<noteq> None)
     \<and> (\<forall>entries. ctx_Err ctx w = None \<and> os_ReadDir E (dir c) w = Inr entries \<longrightarrow>
          (\<exists>w1 calls. refresh E c ctx w = Some w1
             \<and> fetchCalls w1 = fetchCalls w @ calls
             \<and> map (\<lambda>(t, domain, fctx). domain) calls
                 = map (drop (length pathPrefix)) (filter (prefix pathPrefix) entries)
             \<and> (\<forall>(t, domain, fctx) \<in> set calls. cancelAt fctx = Some T)
             \<and> lateRequests T w1 = lateRequests T w
             \<and> now w \<le> now w1
             \<and> PeriodicallyRefresh E c ctx w
                 = PeriodicallyRefresh E c ctx
                     (time_Sleep (10 * Minute) (Add ''cacheRefreshCycles'' w1))
             \<and> (T \<le> now w1 + 10 * Minute \<longrightarrow>
                  PeriodicallyRefresh E c ctx w
                  = Some (Some (time_Sleep (10 * Minute) (Add ''cacheRefreshCycles'' w1))))))
     \<and> (\<forall>fctx domain w0 r w2.
          cancelAt fctx = Some T \<and> T \<le> now w0 \<and> Fetch E fctx domain w0 = (r, w2) \<longrightarrow>
          (\<exists>err. r = Inl err) \<and> lateRequests T w2 = lateRequests T w0)"
proof (intro conjI)
  show "\<exists>w'. PeriodicallyRefresh E c ctx w = Some (Some w') \<and> ctx_Err ctx w' \<noteq> None"
  proof (induction "nat (T - now w)" arbitrary: w rule: less_induct)
    case less
    show ?case
    proof (cases "ctx_Err ctx w = None")
      case False
      then show ?thesis
        by (auto simp: PeriodicallyRefresh_done)
    next
      case True
      from doneAt_cancel [OF assms True] have before: "now w < T" .
      from refresh_returns [of E c ctx w] obtain w1
        where r: "refresh E c ctx w = Some w1" and t: "now w \<le> now w1"
        by blast
      let ?w2 = "time_Sleep (10 * Minute) (Add ''cacheRefreshCycles'' w1)"
      have "now ?w2 > now w"
        using t by (simp add: time_Sleep_now)
      with before have "nat (T - now ?w2) < nat (T - now w)"
        by simp
      from less [OF this] PeriodicallyRefresh_pass [OF True r]
      show ?thesis by simp
    qed
  qed
next
  show "\<forall>entries. ctx_Err ctx w = None \<and> os_ReadDir E (dir c) w = Inr entries \<longrightarrow>
          (\<exists>w1 calls. refresh E c ctx w = Some w1
             \<and> fetchCalls w1 = fetchCalls w @ calls
             \<and> map (\<lambda>(t, domain, fctx). domain) calls
                 = map (drop (length pathPrefix)) (filter (prefix pathPrefix) entries)
             \<and> (\<forall>(t, domain, fctx) \<in> set calls. cancelAt fctx = Some T)
             \<and> lateRequests T w1 = lateRequests T w
             \<and> now w \<le> now w1
             \<and> PeriodicallyRefresh E c ctx w
                 = PeriodicallyRefresh E c ctx
                     (time_Sleep (10 * Minute) (Add ''cacheRefreshCycles'' w1))
             \<and> (T \<le> now w1 + 10 * Minute \<longrightarrow>
                  PeriodicallyRefresh E c ctx w
                  = Some (Some (time_Sleep (10 * Minute) (Add ''cacheRefreshCycles'' w1)))))"
  proof (intro allI impI)
    fix entries
    assume h: "ctx_Err ctx w = None \<and> os_ReadDir E (dir c) w = Inr entries"
    then have alive: "ctx_Err ctx w = None" and rd: "os_ReadDir E (dir c) w = Inr entries"
      by simp_all
    from refreshEntries_pass [OF os_ReadDir_names(2) [OF rd], of E c ctx w] obtain w1 calls
      where run: "refreshEntries E c ctx entries w = Some w1"
        and calls: "fetchCalls w1 = fetchCalls w @ calls"
          "map (\<lambda>(t, domain, fctx). domain) calls
             = map (drop (length pathPrefix)) (filter (prefix pathPrefix) entries)"
        and ctxs: "\<forall>(t, domain, fctx) \<in> set calls. fctx = WithTimeout ctx (30 * Second) t"
        and mono: "now w \<le> now w1"
      by blast
    have rf: "refresh E c ctx w = Some w1"
      using rd run by (simp add: refresh_def)
    from ctxs assms have canc: "\<forall>(t, domain, fctx) \<in> set calls. cancelAt fctx = Some T"
      by auto
    note late = refreshEntries_late [OF assms run]
    let ?w2 = "time_Sleep (10 * Minute) (Add ''cacheRefreshCycles'' w1)"
    note step = PeriodicallyRefresh_pass [OF alive rf]
    have exit: "PeriodicallyRefresh E c ctx w = Some (Some ?w2)" if "T \<le> now w1 + 10 * Minute"
    proof -
      have "now ?w2 = now w1 + 10 * Minute"
        by (simp add: time_Sleep_now) (simp add: Minute_def Second_def)
      with that have "T \<le> now ?w2"
        by simp
      with assms have "ctx_Err ctx ?w2 \<noteq> None"
        by (auto simp: ctx_Err_def doneAt_def split: option.splits)
      with step show ?thesis
        by (simp add: PeriodicallyRefresh_done)
    qed
    from rf calls canc late mono step exit
    show "\<exists>w1 calls. refresh E c ctx w = Some w1
             \<and> fetchCalls w1 = fetchCalls w @ calls
             \<and> map (\<lambda>(t, domain, fctx). domain) calls
                 = map (drop (length pathPrefix)) (filter (prefix pathPrefix) entries)
             \<and> (\<forall>(t, domain, fctx) \<in> set calls. cancelAt fctx = Some T)
             \<and> lateRequests T w1 = lateRequests T w
             \<and> now w \<le> now w1
             \<and> PeriodicallyRefresh E c ctx w
                 = PeriodicallyRefresh E c ctx
                     (time_Sleep (10 * Minute) (Add ''cacheRefreshCycles'' w1))
             \<and> (T \<le> now w1 + 10 * Minute \<longrightarrow>
                  PeriodicallyRefresh E c ctx w
                  = Some (Some (time_Sleep (10 * Minute) (Add ''cacheRefreshCycles'' w1))))"
      by blast
  qed
next
  show "\<forall>fctx domain w0 r w2.
          cancelAt fctx = Some T \<and> T \<le> now w0 \<and> Fetch E fctx domain w0 = (r, w2) \<longrightarrow>
          (\<exists>err. r = Inl err) \<and> lateRequests T w2 = lateRequests T w0"
    using Fetch_late by blast
qed

theorem PeriodicallyRefresh_exits_witness:
  "cancelAt \<lparr>cancelAt = Some 102, deadline = None\<rparr> = Some 102
   \<and> ctx_Err \<lparr>cancelAt = Some 102, deadline = None\<rparr>
        (worldAt 100
           [(''/var/sts/pol:other.example'',
             \<lparr>data = projr (json_Marshal examplePolicy), mtime = 5000\<rparr>),
            (''/var/sts/pol:example.com'',
             \<lparr>data = projr (json_Marshal examplePolicy), mtime = 1\<rparr>)]) = None
   \<and> os_ReadDir exampleEnv (dir exampleCache)
        (worldAt 100
           [(''/var/sts/pol:other.example'',
             \<lparr>data = projr (json_Marshal examplePolicy), mtime = 5000\<rparr>),
            (''/var/sts/pol:example.com'',
             \<lparr>data = projr (json_Marshal examplePolicy), mtime = 1\<rparr>)])
      = Inr [''pol:example.com'', ''pol:other.example'']
   \<and> (\<exists>w1. refresh exampleEnv exampleCache \<lparr>cancelAt = Some 102, deadline = None\<rparr>
          (worldAt 100
             [(''/var/sts/pol:other.example'',
               \<lparr>data = projr (json_Marshal examplePolicy), mtime = 5000\<rparr>),
              (''/var/sts/pol:example.com'',
               \<lparr>data = projr (json_Marshal examplePolicy), mtime = 1\<rparr>)]) = Some w1
        \<and> map (\<lambda>(t, domain, fctx). domain) (fetchCalls w1) = [''example.com'', ''other.example'']
        \<and> map (\<lambda>(t, domain, fctx). cancelAt fctx) (fetchCalls w1) = [Some 102, Some 102]
        \<and> lateRequests 102 w1 = []
        \<and> PeriodicallyRefresh exampleEnv exampleCache \<lparr>cancelAt = Some 102, deadline = None\<rparr>
            (worldAt 100
               [(''/var/sts/pol:other.example'',
                 \<lparr>data = projr (json_Marshal examplePolicy), mtime = 5000\<rparr>),
                (''/var/sts/pol:example.com'',
                 \<lparr>data = projr (json_Marshal examplePolicy), mtime = 1\<rparr>)])
          = Some (Some (time_Sleep (10 * Minute) (Add ''cacheRefreshCycles'' w1))))
   \<and> (\<exists>err. fst (Fetch exampleEnv \<lparr>cancelAt = Some 102, deadline = Some 30000000105\<rparr>
                  ''example.com'' (worldAt 105 [])) = Inl err)
   \<and> lateRequests 102
        (snd (Fetch exampleEnv \<lparr>cancelAt = Some 102, deadline = Some 30000000105\<rparr>
                ''example.com'' (worldAt 105 []))) = []"
proof -
  let ?ctx = "\<lparr>cancelAt = Some 102, deadline = None\<rparr>"
  let ?fctx = "\<lparr>cancelAt = Some 102, deadline = Some 30000000105\<rparr>"
  let ?w = "worldAt 100
           [(''/var/sts/pol:other.example'',
             \<lparr>data = projr (json_Marshal examplePolicy), mtime = 5000\<rparr>),
            (''/var/sts/pol:example.com'',
             \<lparr>data = projr (json_Marshal examplePolicy), mtime = 1\<rparr>)]"
  let ?E = exampleEnv
  let ?c = exampleCache
  have canc: "cancelAt ?ctx = Some 102"
    by simp
  have alive: "ctx_Err ?ctx ?w = None"
    by (simp add: ctx_Err_def doneAt_def worldAt_def)
  have rd: "os_ReadDir ?E (dir ?c) ?w = Inr [''pol:example.com'', ''pol:other.example'']"
    by (simp add: os_ReadDir_def exampleEnv_def exampleCache_def worldAt_def)
  have start: "fetchCalls ?w = []" "lateRequests 102 ?w = []" "now ?w = 100"
    by (simp_all add: fetchCalls_def lateRequests_def worldAt_def List.map_filter_def)
  from PeriodicallyRefresh_exits [of ?ctx 102 ?E ?c ?w, OF canc, THEN conjunct2, THEN conjunct1,
      rule_format, of "[''pol:example.com'', ''pol:other.example'']"] alive rd
  obtain w1 calls
    where rf: "refresh ?E ?c ?ctx ?w = Some w1"
      and calls: "fetchCalls w1 = fetchCalls ?w @ calls"
        "map (\<lambda>(t, domain, fctx). domain) calls
           = map (drop (length pathPrefix))
               (filter (prefix pathPrefix) [''pol:example.com'', ''pol:other.example''])"
      and ctxs: "\<forall>(t, domain, fctx) \<in> set calls. cancelAt fctx = Some 102"
      and late: "lateRequests 102 w1 = lateRequests 102 ?w"
      and mono: "now ?w \<le> now w1"
      and exit: "102 \<le> now w1 + 10 * Minute \<longrightarrow>
                  PeriodicallyRefresh ?E ?c ?ctx ?w
                  = Some (Some (time_Sleep (10 * Minute) (Add ''cacheRefreshCycles'' w1)))"
    by blast
  from calls start have domains: "map (\<lambda>(t, domain, fctx). domain) (fetchCalls w1)
      = [''example.com'', ''other.example'']"
    by (simp add: pathPrefix_def)
  then have "length (fetchCalls w1) = 2"
    by (metis length_map length_Cons list.size(3) numeral_2_eq_2)
  then obtain a b where ab: "fetchCalls w1 = [a, b]"
    by (auto simp: length_Suc_conv numeral_2_eq_2)
  with ctxs calls(1) start have cancels: "map (\<lambda>(t, domain, fctx). cancelAt fctx) (fetchCalls w1)
      = [Some 102, Some 102]"
    by (auto split: prod.splits)
  from late start have none: "lateRequests 102 w1 = []"
    by simp
  from mono start have "102 \<le> now w1 + 10 * Minute"
    by (simp add: Minute_def Second_def)
  with exit have out: "PeriodicallyRefresh ?E ?c ?ctx ?w
      = Some (Some (time_Sleep (10 * Minute) (Add ''cacheRefreshCycles'' w1)))"
    by simp
  have pass: "\<exists>w1. refresh ?E ?c ?ctx ?w = Some w1
        \<and> map (\<lambda>(t, domain, fctx). domain) (fetchCalls w1) = [''example.com'', ''other.example'']
        \<and> map (\<lambda>(t, domain, fctx). cancelAt fctx) (fetchCalls w1) = [Some 102, Some 102]
        \<and> lateRequests 102 w1 = []
        \<and> PeriodicallyRefresh ?E ?c ?ctx ?w
          = Some (Some (time_Sleep (10 * Minute) (Add ''cacheRefreshCycles'' w1)))"
    by (rule exI [of _ w1], intro conjI) (rule rf domains cancels none out)+
  obtain r w2 where f: "Fetch ?E ?fctx ''example.com'' (worldAt 105 []) = (r, w2)"
    by (cases "Fetch ?E ?fctx ''example.com'' (worldAt 105 [])")
  have "cancelAt ?fctx = Some 102 \<and> 102 \<le> now (worldAt 105 [])"
    by (simp add: worldAt_def)
  with PeriodicallyRefresh_exits [of ?ctx 102 ?E ?c ?w, OF canc, THEN conjunct2, THEN conjunct2,
      rule_format, of ?fctx "worldAt 105 []" "''example.com''" r w2] f
  have "(\<exists>err. r = Inl err) \<and> lateRequests 102 w2 = lateRequests 102 (worldAt 105 [])"
    by blast
  moreover have "lateRequests 102 (worldAt 105 []) = []"
    by (simp add: lateRequests_def worldAt_def)
  ultimately have entry: "\<exists>err. fst (Fetch ?E ?fctx ''example.com'' (worldAt 105 [])) = Inl err"
    and quiet: "lateRequests 102 (snd (Fetch ?E ?fctx ''example.com'' (worldAt 105 []))) = []"
    using f by simp_all
  from canc alive rd pass entry quiet show ?thesis
    by (intro conjI)
qed

section \<open>The JSON encoding of a policy, there and back\<close>

lemma runeLen_le: "runeLen s \<le> length s"
  by (auto simp: runeLen_def split: list.splits)

lemma runeLen_ascii: "byte c < 0x80 \<Longrightarrow> runeLen (c # cs) = 1"
  by (simp add: runeLen_def)

lemma hexVal_hexDigits:
  assumes "0 \<le> d" and "d < 16"
  shows "hexVal (hexDigits ! nat d) = Some d"
proof -
  from assms have "d = 0 \<or> d = 1 \<or> d = 2 \<or> d = 3 \<or> d = 4 \<or> d = 5 \<or> d = 6 \<or> d = 7
      \<or> d = 8 \<or> d = 9 \<or> d = 10 \<or> d = 11 \<or> d = 12 \<or> d = 13 \<or> d = 14 \<or> d = 15"
    by arith
  then show ?thesis
    by (elim disjE) (simp_all add: hexVal_def hexDigits_def)
qed

lemma digit_hexDigits:
  assumes "0 \<le> d" and "d < 10"
  shows "map_of digits (hexDigits ! nat d) = Some d"
proof -
  from assms have "d = 0 \<or> d = 1 \<or> d = 2 \<or> d = 3 \<or> d = 4 \<or> d = 5 \<or> d = 6 \<or> d = 7
      \<or> d = 8 \<or> d = 9"
    by arith
  then show ?thesis
    by (elim disjE) (simp_all add: digits_def hexDigits_def)
qed

lemma byte_range: "0 \<le> byte c" "byte c < 256"
proof -
  have "byte c = int (of_char c)"
    by (simp add: byte_def of_nat_of_char)
  then show "0 \<le> byte c" and "byte c < 256"
    using nat_of_char_less_256 [of c] by simp_all
qed

lemma hex4_byte:
  "hex4 [CHR ''0'', CHR ''0'', hexDigits ! nat (byte c div 16), hexDigits ! nat (byte c mod 16)]
     = Some (byte c)"
proof -
  have hi: "hexVal (hexDigits ! nat (byte c div 16)) = Some (byte c div 16)"
    using byte_range [of c] by (intro hexVal_hexDigits) auto
  have lo: "hexVal (hexDigits ! nat (byte c mod 16)) = Some (byte c mod 16)"
    by (intro hexVal_hexDigits) auto
  have zero: "hexVal (CHR ''0'') = Some 0"
    by (simp add: hexVal_def hexDigits_def)
  show ?thesis
    by (simp add: hex4_def hi lo zero)
qed
lemma runeLen_take:
  assumes "runeLen s \<noteq> 0"
  shows "runeLen (take (runeLen s) s @ t) = runeLen s"
proof (cases s)
  case Nil
  with assms show ?thesis by (simp add: runeLen_def)
next
  case (Cons c cs)
  show ?thesis
  proof (cases "byte c < 0x80")
    case True
    with Cons show ?thesis by (simp add: runeLen_def)
  next
    case a: False
    show ?thesis
    proof (cases "between 0xC2 0xDF c")
      case True
      with a Cons assms obtain c1 cs1 where "cs = c1 # cs1" "between 0x80 0xBF c1"
        by (cases cs) (auto simp: runeLen_def split: if_splits)
      with a True Cons show ?thesis by (simp add: runeLen_def)
    next
      case b: False
      show ?thesis
      proof (cases "between 0xE0 0xEF c")
        case True
        with a b Cons assms obtain c1 c2 cs2 where cs: "cs = c1 # c2 # cs2"
          by (cases cs; cases "tl cs") (auto simp: runeLen_def)
        with a b True Cons assms have "runeLen s = 3"
          by (simp add: runeLen_def split: if_splits)
        moreover from this a b True Cons cs have "runeLen (c # c1 # c2 # t) = 3"
          by (simp add: runeLen_def split: if_splits)
        ultimately show ?thesis using Cons cs by simp
      next
        case c: False
        show ?thesis
        proof (cases "between 0xF0 0xF4 c")
          case True
          with a b c Cons assms obtain c1 c2 c3 cs3 where cs: "cs = c1 # c2 # c3 # cs3"
            by (cases cs; cases "tl cs"; cases "tl (tl cs)") (auto simp: runeLen_def)
          with a b c True Cons assms have "runeLen s = 4"
            by (simp add: runeLen_def split: if_splits)
          moreover from this a b c True Cons cs have "runeLen (c # c1 # c2 # c3 # t) = 4"
            by (simp add: runeLen_def split: if_splits)
          ultimately show ?thesis using Cons cs by simp
        next
          case False
          with a b c Cons assms show ?thesis by (simp add: runeLen_def)
        qed
      qed
    qed
  qed
qed

lemma byte_quote: "byte (CHR 0x22) = 0x22" "byte (CHR 0x5C) = 0x5C"
  by (simp_all add: byte_def)

lemma consTo_Some [simp]: "consTo pre (Some (s, rest)) = Some (pre @ s, rest)"
  by (simp add: consTo_def)

lemma unquote_quote: "unquote (CHR 0x22 # cs) = Some ([], cs)"
  by (subst unquote.simps) simp

lemma unquote_raw_ascii:
  assumes "c \<noteq> CHR 0x22" and "c \<noteq> CHR 0x5C" and "0x20 \<le> byte c" and "byte c < 0x80"
  shows "unquote (c # cs) = consTo [c] (unquote cs)"
  using assms by (subst unquote.simps) simp

lemma unquote_short:
  assumes "map_of shortEscapes e = Some b" and "e \<noteq> CHR ''u''"
  shows "unquote (CHR 0x5C # e # es) = consTo [b] (unquote es)"
  using assms by (subst unquote.simps) simp

lemma unquote_u:
  assumes "hex4 (take 4 es) = Some r" and "\<not> (0xD800 \<le> r \<and> r \<le> 0xDFFF)"
  shows "unquote (CHR 0x5C # CHR ''u'' # es) = consTo (encodeRune r) (unquote (drop 4 es))"
  using assms by (subst unquote.simps) auto

lemma unquote_multi:
  assumes "0x80 \<le> byte c" and "runeLen (c # cs) \<noteq> 0"
  shows "unquote (c # cs)
     = consTo (take (runeLen (c # cs)) (c # cs)) (unquote (drop (runeLen (c # cs)) (c # cs)))"
proof -
  from assms(1) have "c \<noteq> CHR 0x22" "c \<noteq> CHR 0x5C"
    using byte_quote by auto
  with assms show ?thesis
    by (subst unquote.simps) simp
qed

lemma unquote_escapeByte:
  assumes "byte c < 0x80"
  shows "unquote (escapeByte c @ t) = consTo [c] (unquote t)"
proof -
  consider (short) "c \<in> {CHR 0x22, CHR 0x5C, CHR 0x08, CHR 0x0C, CHR 0x0A, CHR 0x0D, CHR 0x09}"
    | (hex) "c \<notin> {CHR 0x22, CHR 0x5C, CHR 0x08, CHR 0x0C, CHR 0x0A, CHR 0x0D, CHR 0x09}"
        "byte c < 0x20 \<or> c = CHR ''<'' \<or> c = CHR ''>'' \<or> c = CHR ''&''"
    | (raw) "c \<notin> {CHR 0x22, CHR 0x5C, CHR 0x08, CHR 0x0C, CHR 0x0A, CHR 0x0D, CHR 0x09}"
        "\<not> (byte c < 0x20 \<or> c = CHR ''<'' \<or> c = CHR ''>'' \<or> c = CHR ''&'')"
    by blast
  then show ?thesis
  proof cases
    case short
    then show ?thesis
      by (auto simp: escapeByte_def unquote_short shortEscapes_def)
  next
    case hex
    have enc: "encodeRune (byte c) = [c]"
      using assms by (simp add: encodeRune_def) (simp add: byte_def)
    have "unquote (CHR 0x5C # CHR ''u'' # CHR ''0'' # CHR ''0'' # hexDigits ! nat (byte c div 16)
        # hexDigits ! nat (byte c mod 16) # t) = consTo (encodeRune (byte c)) (unquote t)"
      using assms by (subst unquote_u [where r = "byte c"]) (simp_all add: hex4_byte)
    with hex enc show ?thesis
      by (simp add: escapeByte_def)
  next
    case raw
    with assms show ?thesis
      by (simp add: escapeByte_def unquote_raw_ascii)
  qed
qed

lemma appendString_Nil: "appendString [] = []"
  by (subst appendString.simps) simp

lemma appendString_ascii:
  "byte c < 0x80 \<Longrightarrow> appendString (c # cs) = escapeByte c @ appendString cs"
  by (subst appendString.simps) simp

lemma encodeRune_separators:
  "encodeRune 0x2028 = [CHR 0xE2, CHR 0x80, CHR 0xA8]"
  "encodeRune 0x2029 = [CHR 0xE2, CHR 0x80, CHR 0xA9]"
  by code_simp+

lemma hex4_separators:
  "hex4 ''2028'' = Some 0x2028" "hex4 ''2029'' = Some 0x2029"
  by (simp_all add: hex4_def hexVal_def hexDigits_def)

text \<open>A string of valid UTF-8 is read back from its literal as it was.\<close>

lemma unquote_appendString:
  "validUTF8 s \<Longrightarrow> unquote (appendString s @ CHR 0x22 # rest) = Some (s, rest)"
proof (induction "length s" arbitrary: s rule: less_induct)
  case less
  show ?case
  proof (cases s)
    case Nil
    then show ?thesis
      by (simp add: appendString_Nil unquote_quote)
  next
    case (Cons c cs)
    from less.prems Cons have n0: "runeLen s \<noteq> 0" and vd: "validUTF8 (drop (runeLen s) s)"
      by (subst (asm) validUTF8.simps, simp split: if_splits)+
    let ?n = "runeLen s"
    let ?tk = "take ?n s"
    let ?dr = "drop ?n s"
    have "length ?dr < length s"
      using n0 Cons by simp
    from less.hyps [OF this vd]
    have IH: "unquote (appendString ?dr @ CHR 0x22 # rest) = Some (?dr, rest)" .
    show ?thesis
    proof (cases "byte c < 0x80")
      case True
      with Cons have "?n = 1" by (simp add: runeLen_ascii)
      with Cons have dr: "?dr = cs" by simp
      from True Cons IH dr show ?thesis
        by (simp add: appendString_ascii unquote_escapeByte)
    next
      case False
      have len: "length ?tk = ?n"
        using runeLen_le [of s] by simp
      have s: "?tk @ ?dr = s" by simp
      consider (ls) "?tk = [CHR 0xE2, CHR 0x80, CHR 0xA8]"
        | (ps) "?tk \<noteq> [CHR 0xE2, CHR 0x80, CHR 0xA8]" "?tk = [CHR 0xE2, CHR 0x80, CHR 0xA9]"
        | (raw) "?tk \<noteq> [CHR 0xE2, CHR 0x80, CHR 0xA8]" "?tk \<noteq> [CHR 0xE2, CHR 0x80, CHR 0xA9]"
        by blast
      then show ?thesis
      proof cases
        case ls
        have ap: "appendString s = [CHR 0x5C] @ ''u2028'' @ appendString ?dr"
          using False n0 ls Cons by (subst appendString.simps) simp
        have "unquote (CHR 0x5C # CHR ''u'' # (''2028'' @ appendString ?dr @ CHR 0x22 # rest))
            = consTo (encodeRune 0x2028) (unquote (appendString ?dr @ CHR 0x22 # rest))"
          by (subst unquote_u [where r = "0x2028"]) (simp_all add: hex4_separators)
        with ap IH ls s show ?thesis
          by (simp add: encodeRune_separators)
      next
        case ps
        have ap: "appendString s = [CHR 0x5C] @ ''u2029'' @ appendString ?dr"
          using False n0 ps Cons by (subst appendString.simps) simp
        have "unquote (CHR 0x5C # CHR ''u'' # (''2029'' @ appendString ?dr @ CHR 0x22 # rest))
            = consTo (encodeRune 0x2029) (unquote (appendString ?dr @ CHR 0x22 # rest))"
          by (subst unquote_u [where r = "0x2029"]) (simp_all add: hex4_separators)
        with ap IH ps s show ?thesis
          by (simp add: encodeRune_separators)
      next
        case raw
        have ap: "appendString s = ?tk @ appendString ?dr"
          using False n0 raw Cons by (subst appendString.simps) simp
        let ?X = "appendString ?dr @ CHR 0x22 # rest"
        have tk: "?tk = c # tl ?tk"
          using n0 Cons by (cases ?n) simp_all
        have rl: "runeLen (c # tl ?tk @ ?X) = ?n"
          using runeLen_take [OF n0, of ?X] tk by (metis append_Cons)
        have tkX: "take ?n (c # tl ?tk @ ?X) = ?tk" "drop ?n (c # tl ?tk @ ?X) = ?X"
          using len tk by (metis append_Cons append_eq_conv_conj)+
        have "unquote (c # tl ?tk @ ?X) = consTo ?tk (unquote ?X)"
          using False n0 rl tkX by (subst unquote_multi) simp_all
        then have "unquote (?tk @ ?X) = consTo ?tk (unquote ?X)"
          using tk by (metis append_Cons)
        with ap IH s show ?thesis
          by simp
      qed
    qed
  qed
qed

lemma readString_quote:
  "validUTF8 s \<Longrightarrow> readString (quote s @ rest) = Some (s, rest)"
  by (simp add: readString_def quote_def unquote_appendString)

lemma quote_Cons: "quote s = CHR 0x22 # appendString s @ [CHR 0x22]"
  by (simp add: quote_def)

lemma joinComma_quote_Cons:
  "xs \<noteq> [] \<Longrightarrow> \<exists>t. joinComma (map quote xs) = CHR 0x22 # t"
  by (cases xs rule: joinComma.cases) (simp_all add: quote_Cons)

lemma readStrings_joinComma:
  assumes "xs \<noteq> []" and "\<forall>x \<in> set xs. validUTF8 x"
  shows "readStrings (joinComma (map quote xs) @ CHR '']'' # rest) = Some (xs, rest)"
  using assms
proof (induction xs rule: list_nonempty_induct)
  case (single x)
  then have "readString (quote x @ CHR '']'' # rest) = Some (x, CHR '']'' # rest)"
    by (simp add: readString_quote)
  then show ?case
    by (subst readStrings.simps) simp
next
  case (cons x xs)
  obtain y ys where xs: "xs = y # ys"
    using cons.hyps by (cases xs) auto
  let ?J = "joinComma (map quote xs) @ CHR '']'' # rest"
  have join: "joinComma (map quote (x # xs)) @ CHR '']'' # rest = quote x @ CHR '','' # ?J"
    using xs by simp
  have rs: "readString (quote x @ CHR '','' # ?J) = Some (x, CHR '','' # ?J)"
    using cons.prems by (simp add: readString_quote)
  have IH: "readStrings ?J = Some (xs, rest)"
    using cons by simp
  show ?case
    unfolding join
    by (subst readStrings.simps) (simp add: rs IH)
qed

lemma readMXs_list:
  assumes "xs \<noteq> []" and "\<forall>x \<in> set xs. validUTF8 x"
  shows "readMXs (CHR ''['' # joinComma (map quote xs) @ CHR '']'' # rest) = Some (xs, rest)"
proof -
  from joinComma_quote_Cons [OF assms(1)] obtain t
    where t: "joinComma (map quote xs) = CHR 0x22 # t" by blast
  have "expect ''null'' (CHR ''['' # joinComma (map quote xs) @ CHR '']'' # rest) = None"
    by (simp add: expect_def)
  moreover have "expect ''[]'' (CHR ''['' # joinComma (map quote xs) @ CHR '']'' # rest) = None"
    by (simp add: expect_def t)
  moreover have "expect ''['' (CHR ''['' # joinComma (map quote xs) @ CHR '']'' # rest)
      = Some (joinComma (map quote xs) @ CHR '']'' # rest)"
    by (simp add: expect_def)
  ultimately show ?thesis
    by (simp add: readMXs_def readStrings_joinComma [OF assms])
qed

lemma showNat_small: "n < 10 \<Longrightarrow> showNat n = [hexDigits ! nat n]"
  by (subst showNat.simps) simp

lemma showNat_large:
  "\<not> n < 10 \<Longrightarrow> showNat n = showNat (n div 10) @ [hexDigits ! nat (n mod 10)]"
  by (subst showNat.simps) simp

lemma showNat_not_Nil: "showNat n \<noteq> []"
  by (cases "n < 10") (simp_all add: showNat_small showNat_large)

lemma showNat_digits:
  "0 \<le> n \<Longrightarrow> \<forall>c \<in> set (showNat n). map_of digits c \<noteq> None"
proof (induction n rule: showNat.induct)
  case (1 n)
  show ?case
  proof (cases "n < 10")
    case True
    with "1.prems" digit_hexDigits [of n] show ?thesis
      by (simp add: showNat_small)
  next
    case False
    have "map_of digits (hexDigits ! nat (n mod 10)) \<noteq> None"
      using digit_hexDigits [of "n mod 10"] by simp
    moreover have "\<forall>c \<in> set (showNat (n div 10)). map_of digits c \<noteq> None"
      using "1.IH" [OF False] "1.prems" by simp
    ultimately show ?thesis
      using False by (simp add: showNat_large)
  qed
qed

lemma showNat_hd:
  "0 < n \<Longrightarrow> hd (showNat n) \<noteq> CHR ''0''"
proof (induction n rule: showNat.induct)
  case (1 n)
  show ?case
  proof (cases "n < 10")
    case True
    have "map_of digits (hexDigits ! nat n) = Some n"
      using True "1.prems" by (intro digit_hexDigits) simp_all
    moreover have "map_of digits (CHR ''0'') = Some 0"
      by (simp add: digits_def)
    ultimately have "hexDigits ! nat n \<noteq> CHR ''0''"
      using "1.prems" by auto
    with True show ?thesis
      by (simp add: showNat_small)
  next
    case False
    then have "0 < n div 10" by simp
    from "1.IH" [OF False this] False show ?thesis
      by (simp add: showNat_large showNat_not_Nil)
  qed
qed

lemma parseUintLoop_snoc:
  "parseUintLoop a (xs @ [d]) =
     (case parseUintLoop a xs of
        (v, None) \<Rightarrow> parseUintLoop v [d]
      | (v, Some e) \<Rightarrow> (v, Some e))"
  by (induction xs arbitrary: a) (auto split: option.splits)

lemma parseUintLoop_showNat:
  "0 \<le> n \<Longrightarrow> n \<le> maxUint64 \<Longrightarrow> parseUintLoop 0 (showNat n) = (n, None)"
proof (induction n rule: showNat.induct)
  case (1 n)
  show ?case
  proof (cases "n < 10")
    case True
    with "1.prems" digit_hexDigits [of n] show ?thesis
      by (simp add: showNat_small maxUint64_def)
  next
    case False
    have IH: "parseUintLoop 0 (showNat (n div 10)) = (n div 10, None)"
      using "1.IH" [OF False] "1.prems" by (simp add: maxUint64_def)
    have d: "map_of digits (hexDigits ! nat (n mod 10)) = Some (n mod 10)"
      using digit_hexDigits [of "n mod 10"] by simp
    have small: "\<not> n div 10 \<ge> 1844674407370955162"
      using "1.prems" by (simp add: maxUint64_def)
    have whole: "n div 10 * 10 + n mod 10 = n"
      by simp
    show ?thesis
      using False "1.prems"
      by (simp add: showNat_large parseUintLoop_snoc IH d small whole)
  qed
qed

lemma ParseInt_showNat:
  assumes "0 \<le> n" and "n \<le> maxInt64"
  shows "ParseInt (showNat n) = (n, None)"
proof -
  obtain c cs where s: "showNat n = c # cs"
    using showNat_not_Nil [of n] by (cases "showNat n") auto
  from showNat_digits [OF assms(1)] s have "map_of digits c \<noteq> None"
    by simp
  then have sign: "c \<noteq> CHR ''+''" "c \<noteq> CHR ''-''"
    by (auto simp: digits_def)
  have "parseUintLoop 0 (showNat n) = (n, None)"
    using assms by (intro parseUintLoop_showNat) (simp_all add: maxInt64_def maxUint64_def)
  then have "ParseUint (c # cs) = (n, None)"
    using s by (simp add: ParseUint_def)
  with sign assms show ?thesis
    by (simp add: ParseInt_def s maxInt64_def)
qed

lemma readInt_Itoa:
  assumes "0 < n" and "n \<le> maxInt64"
  shows "readInt (Itoa n @ CHR ''}'' # rest) = Some (n, CHR ''}'' # rest)"
proof -
  let ?P = "\<lambda>c. c = CHR ''-'' \<or> map_of digits c \<noteq> None"
  have it: "Itoa n = showNat n"
    using assms by (simp add: Itoa_def)
  have all: "\<forall>c \<in> set (showNat n). ?P c"
    using showNat_digits [of n] assms by simp
  have stop: "\<not> ?P (CHR ''}'')"
    by (simp add: digits_def)
  have lit: "takeWhile ?P (showNat n @ CHR ''}'' # rest) = showNat n"
    using all stop by (simp add: takeWhile_append2)
  obtain c cs where s: "showNat n = c # cs"
    using showNat_not_Nil [of n] by (cases "showNat n") auto
  from showNat_digits [of n] assms s have "c \<noteq> CHR ''-''"
    by (auto simp: digits_def)
  with s have ds: "(case showNat n of c # cs \<Rightarrow> if c = CHR ''-'' then cs else showNat n | [] \<Rightarrow> [])
      = showNat n"
    by simp
  have lead: "hd (showNat n) \<noteq> CHR ''0''"
    using assms by (intro showNat_hd)
  have val: "ParseInt (showNat n) = (n, None)"
    using assms by (intro ParseInt_showNat) simp_all
  show ?thesis
    unfolding readInt_def it Let_def lit ds
    using lead val showNat_not_Nil [of n] by simp
qed

lemma expect_append: "expect lit (lit @ s) = Some s"
  by (simp add: expect_def)

lemma validUTF8_constants:
  "validUTF8 ''STSv1''" "validUTF8 Enforce" "validUTF8 Testing" "validUTF8 None_mode"
  by code_simp+

text \<open>The document that \<open>json.Marshal\<close> writes for a valid policy is decoded to that policy.\<close>

lemma decodePolicy_Marshal:
  assumes "Check p = None" and "\<forall>mx \<in> set (MXs p). validUTF8 mx"
  shows "decodePolicy (projr (json_Marshal p)) = Some p"
proof -
  from assms(1) have v: "Version p = ''STSv1''"
    and m: "Mode p \<in> {Enforce, Testing, None_mode}" and mx: "MXs p \<noteq> []"
    and age: "0 < MaxAge p" "MaxAge p \<le> 31557600 * Second"
    by (simp_all add: Check_accepts_iff)
  have vv: "validUTF8 (Version p)"
    using v validUTF8_constants by simp
  have vm: "validUTF8 (Mode p)"
    using m validUTF8_constants by auto
  have range: "MaxAge p \<le> maxInt64"
    using age by (simp add: Second_def maxInt64_def)
  define k1 where "k1 = ''{'' @ quote ''version'' @ '':''"
  define k2 where "k2 = '','' @ quote ''mode'' @ '':''"
  define k3 where "k3 = '','' @ quote ''mx'' @ '':''"
  define k4 where "k4 = '','' @ quote ''max_age'' @ '':''"
  define t4 where "t4 = Itoa (MaxAge p) @ CHR ''}'' # []"
  define t3 where "t3 = CHR ''['' # joinComma (map quote (MXs p)) @ CHR '']'' # k4 @ t4"
  define t2 where "t2 = quote (Mode p) @ k3 @ t3"
  define t1 where "t1 = quote (Version p) @ k2 @ t2"
  have doc: "projr (json_Marshal p) = k1 @ t1"
    using mx by (simp add: json_Marshal_def k1_def k2_def k3_def k4_def t1_def t2_def t3_def t4_def)
  have dec: "decodePolicy s =
     (case expect k1 s of None \<Rightarrow> None | Some s \<Rightarrow>
      case readString s of None \<Rightarrow> None | Some (version, s) \<Rightarrow>
      case expect k2 s of None \<Rightarrow> None | Some s \<Rightarrow>
      case readString s of None \<Rightarrow> None | Some (mode, s) \<Rightarrow>
      case expect k3 s of None \<Rightarrow> None | Some s \<Rightarrow>
      case readMXs s of None \<Rightarrow> None | Some (mxs, s) \<Rightarrow>
      case expect k4 s of None \<Rightarrow> None | Some s \<Rightarrow>
      case readInt s of None \<Rightarrow> None | Some (maxAge, s) \<Rightarrow>
      if s = ''}'' then Some \<lparr>Version = version, Mode = mode, MXs = mxs, MaxAge = maxAge\<rparr>
      else None)" for s
    unfolding decodePolicy_def k1_def k2_def k3_def k4_def ..
  have s1: "expect k1 (k1 @ t1) = Some t1"
    by (rule expect_append)
  have s2: "readString t1 = Some (Version p, k2 @ t2)"
    unfolding t1_def by (rule readString_quote [OF vv])
  have s3: "expect k2 (k2 @ t2) = Some t2"
    by (rule expect_append)
  have s4: "readString t2 = Some (Mode p, k3 @ t3)"
    unfolding t2_def by (rule readString_quote [OF vm])
  have s5: "expect k3 (k3 @ t3) = Some t3"
    by (rule expect_append)
  have s6: "readMXs t3 = Some (MXs p, k4 @ t4)"
    unfolding t3_def by (rule readMXs_list [OF mx assms(2)])
  have s7: "expect k4 (k4 @ t4) = Some t4"
    by (rule expect_append)
  have s8: "readInt t4 = Some (MaxAge p, ''}'')"
    unfolding t4_def using readInt_Itoa [OF age(1) range, of "[]"] by simp
  show ?thesis
    unfolding doc dec by (simp add: s1 s2 s3 s4 s5 s6 s7 s8)
qed

section \<open>Storing a policy and looking it up\<close>

text \<open>
  C9, as the claim states it, fails. A policy whose only \<open>mx\<close> is the byte 0xFF passes
  the validity check; it is stored under \<open>example.com\<close>, and the lookup that follows at
  once returns a policy whose \<open>mx\<close> is the three bytes of U+FFFD.
\<close>

theorem store_load_invalid_utf8:
  "Check \<lparr>Version = ''STSv1'', Mode = Enforce, MXs = [ [CHR 0xFF] ], MaxAge = 86400 * Second\<rparr> = None
   \<and> map_option fst
        (store exampleEnv exampleCache ''example.com''
           \<lparr>Version = ''STSv1'', Mode = Enforce, MXs = [ [CHR 0xFF] ], MaxAge = 86400 * Second\<rparr>
           (worldAt 0 [])) = Some None
   \<and> map_option fst
        (load exampleEnv exampleCache ''example.com''
           (snd (the (store exampleEnv exampleCache ''example.com''
              \<lparr>Version = ''STSv1'', Mode = Enforce, MXs = [ [CHR 0xFF] ], MaxAge = 86400 * Second\<rparr>
              (worldAt 0 [])))))
     = Some (Inr \<lparr>Version = ''STSv1'', Mode = Enforce, MXs = [ [CHR 0xEF, CHR 0xBF, CHR 0xBD] ],
                  MaxAge = 86400 * Second\<rparr>)"
  by code_simp

text \<open>
  C9, amended. For every policy that passes the validity check and whose \<open>mx\<close> values are
  valid UTF-8, and every domain with no slash: after a store that succeeds, a lookup made
  while the file is as stored, no later than the instant of expiry and with no failure of
  the file system, returns a policy equal to the one stored.
\<close>

theorem store_load_roundtrip:
  assumes "Check p = None" and "\<forall>mx \<in> set (MXs p). validUTF8 mx"
    and "store E c domain p w = Some (None, w1)"
    and "files w2 = files w1" and "now w2 \<le> now w + MaxAge p"
    and "fsFault E OpStat (dir c @ ''/pol:'' @ domain) (now w2) = None"
    and "fsFault E OpReadFile (dir c @ ''/pol:'' @ domain) (now w2) = None"
  shows "load E c domain w2
     = Some (Inr p, record_event (EvReadFile (dir c @ ''/pol:'' @ domain)) w2)"
proof -
  let ?path = "dir c @ ''/pol:'' @ domain"
  let ?f = "\<lparr>data = projr (json_Marshal p), mtime = now w + MaxAge p\<rparr>"
  note dp = store_success(1) [OF assms(3)]
  from store_success(2) [OF assms(3)] have "files w1 = AList.update ?path ?f (files w)" .
  with assms(4) have "map_of (files w2) ?path = Some ?f"
    by (simp add: update_conv')
  with assms(6) have st: "os_Stat E ?path w2 = Inr ?f"
    by (simp add: os_Stat_def)
  have dec: "json_Unmarshal (json_other E) (data ?f) = Inr p"
    using decodePolicy_Marshal [OF assms(1,2)] by (simp add: json_Unmarshal_def)
  from load_unfold [OF dp st] assms(5,7) dec assms(1) show ?thesis
    by simp
qed

theorem store_load_roundtrip_witness:
  "Check examplePolicy = None
   \<and> list_all validUTF8 (MXs examplePolicy)
   \<and> store exampleEnv exampleCache ''example.com'' examplePolicy (worldAt 0 [])
      = Some (None, worldAt 0 [(''/var/sts/pol:example.com'',
                \<lparr>data = projr (json_Marshal examplePolicy), mtime = 86400000000000\<rparr>)])
   \<and> load exampleEnv exampleCache ''example.com''
        (worldAt 86400000000000 [(''/var/sts/pol:example.com'',
                \<lparr>data = projr (json_Marshal examplePolicy), mtime = 86400000000000\<rparr>)])
      = Some (Inr examplePolicy,
          record_event (EvReadFile ''/var/sts/pol:example.com'')
            (worldAt 86400000000000 [(''/var/sts/pol:example.com'',
                \<lparr>data = projr (json_Marshal examplePolicy), mtime = 86400000000000\<rparr>)]))"
proof -
  let ?fs = "[(''/var/sts/pol:example.com'',
                \<lparr>data = projr (json_Marshal examplePolicy), mtime = 86400000000000\<rparr>)]"
  have chk: "Check examplePolicy = None"
    by code_simp
  have utf: "list_all validUTF8 (MXs examplePolicy)"
    by code_simp
  then have utf': "\<forall>mx \<in> set (MXs examplePolicy). validUTF8 mx"
    by (simp add: list_all_iff)
  have st: "store exampleEnv exampleCache ''example.com'' examplePolicy (worldAt 0 [])
      = Some (None, worldAt 0 ?fs)"
    by (simp add: store_def json_Marshal_def domainPath_def pathPrefix_def safeio_WriteFile_def
        os_Chtimes_def exampleEnv_def exampleCache_def worldAt_def examplePolicy_def Second_def
        Let_def)
  have same: "files (worldAt 86400000000000 ?fs) = files (worldAt 0 ?fs)"
    by (simp add: worldAt_def)
  have intime: "now (worldAt 86400000000000 ?fs) \<le> now (worldAt 0 []) + MaxAge examplePolicy"
    by (simp add: worldAt_def examplePolicy_def Second_def)
  have f1: "fsFault exampleEnv OpStat (dir exampleCache @ ''/pol:'' @ ''example.com'')
      (now (worldAt 86400000000000 ?fs)) = None"
    and f2: "fsFault exampleEnv OpReadFile (dir exampleCache @ ''/pol:'' @ ''example.com'')
      (now (worldAt 86400000000000 ?fs)) = None"
    by (simp_all add: exampleEnv_def)
  from store_load_roundtrip [OF chk utf' st same intime f1 f2] chk utf st show ?thesis
    by (simp add: exampleCache_def)
qed

end
